theory Spec2Isabelle
  imports Main "HOL-Library.Word"
begin

section \<open>Data model\<close>

text \<open>
  The plugin exists in the repository in two versions: \<^verbatim>\<open>index.js\<close> and a second file
  (\<^verbatim>\<open>unnamed/part_006\<close>) that adds a \<^verbatim>\<open>'limit'\<close> listener to the buffered parse, byte
  counting to the streaming iterator and synchronous \<^verbatim>\<open>file()\<close>/\<^verbatim>\<open>files()\<close> accessors.
  Definitions without a suffix embed \<^verbatim>\<open>index.js\<close>; definitions ending in \<open>_p6\<close> embed the
  second file where it differs.

  The multipart tokenizer (busboy), the byte streams and the file system are outside the
  repository. Their callbacks are the inputs of the model: an \<open>event\<close> is one callback
  invocation, a run is a list of events, and each handler of the source is a function
  from state to state.
\<close>

type_synonym bytes = "8 word list"

text \<open>The errors of \<^verbatim>\<open>createError\<close>, the \<^verbatim>\<open>TypeError\<close> of the runtime, and errors that
  come from the tokenizer or the file system and are passed on as they are.\<close>

datatype error =
    FileSizeLimit string
  | FilesLimit
  | FieldsLimit
  | InvalidMultipartContentType
  | InvalidPart
  | TypeError
  | Underlying string

text \<open>\<^verbatim>\<open>createError(code, message, statusCode)\<close>: the message, with \<^verbatim>\<open>%s\<close> filled in.\<close>

fun message :: "error \<Rightarrow> string" where
  "message (FileSizeLimit a) = ''File size limit exceeded: '' @ a"
| "message FilesLimit = ''Too many files''"
| "message FieldsLimit = ''Too many fields''"
| "message InvalidMultipartContentType = ''Invalid multipart content type''"
| "message InvalidPart = ''Invalid multipart part''"
| "message TypeError =
     ''Cannot read properties of null (reading '' @ [CHR 0x27] @ ''map'' @ [CHR 0x27] @ '')''"
| "message (Underlying m) = m"

fun statusCode :: "error \<Rightarrow> nat option" where
  "statusCode (FileSizeLimit a) = Some 413"
| "statusCode FilesLimit = Some 413"
| "statusCode FieldsLimit = Some 413"
| "statusCode InvalidMultipartContentType = Some 400"
| "statusCode InvalidPart = Some 400"
| "statusCode TypeError = None"
| "statusCode (Underlying m) = None"

text \<open>\<^verbatim>\<open>String.prototype.includes\<close>: a case-sensitive substring test.\<close>

fun starts_with :: "string \<Rightarrow> string \<Rightarrow> bool" where
  "starts_with s [] = True"
| "starts_with [] (p # ps) = False"
| "starts_with (c # cs) (p # ps) = (c = p \<and> starts_with cs ps)"

fun str_includes :: "string \<Rightarrow> string \<Rightarrow> bool" where
  "str_includes [] pat = (pat = [])"
| "str_includes (c # cs) pat = (starts_with (c # cs) pat \<or> str_includes cs pat)"

text \<open>The decimal digits of a number, as a template literal prints a non-negative integer
  below \<open>10\<^sup>2\<^sup>1\<close>. Byte counts and limits are taken to be such integers.\<close>

definition digit :: "nat \<Rightarrow> char" where
  "digit d = char_of (48 + d)"

function show_nat :: "nat \<Rightarrow> string" where
  "show_nat n = (if n < 10 then [digit n] else show_nat (n div 10) @ [digit (n mod 10)])"
  by pat_completeness auto
termination
  by (relation "measure id") auto

declare show_nat.simps [simp del]

text \<open>The configuration the handlers read: \<^verbatim>\<open>config.limits.fileSize\<close> and
  \<^verbatim>\<open>config.tempDir\<close>. The other limits are only handed to the tokenizer.\<close>

record config =
  limits_fileSize :: nat
  tempDir :: string

text \<open>The \<^verbatim>\<open>info\<close> object of a tokenizer file event; a property can be missing.\<close>

record info =
  info_filename :: "string option"
  info_encoding :: "string option"
  info_mimeType :: "string option"

text \<open>\<^verbatim>\<open>v || d\<close> for a string or missing \<^verbatim>\<open>v\<close>: the empty string is falsy too.\<close>

definition or_default :: "string option \<Rightarrow> string \<Rightarrow> string" where
  "or_default v d = (case v of None \<Rightarrow> d | Some s \<Rightarrow> if s = [] then d else s)"

text \<open>\<^verbatim>\<open>fileObj\<close>: the data properties of a file descriptor. Its methods and its
  \<^verbatim>\<open>size\<close> getter read the file system when they are called, and are functions of the
  file system below.\<close>

record fileObj =
  fieldname :: string
  filename :: string
  encoding :: string
  mimetype :: string
  tempPath :: string

text \<open>A value stored in the \<^verbatim>\<open>fields\<close> object: a string, an array, or a member inherited
  from \<^verbatim>\<open>Object.prototype\<close> (\<^verbatim>\<open>fields\<close> is created as \<^verbatim>\<open>{}\<close>, so a lookup of a name such as
  \<^verbatim>\<open>toString\<close> finds the inherited function).\<close>

datatype fval = FStr string | FArr "fval list" | FInherited string

text \<open>The own properties of \<^verbatim>\<open>fields\<close>, in insertion order. (An enumeration in the
  runtime puts integer-like names first; lookups, which are all that the listener does, do
  not depend on the order.)\<close>

type_synonym fields_obj = "(string \<times> fval) list"

record parseResult =
  r_files :: "fileObj list"
  r_fields :: "fields_obj option"
  r_tempFiles :: "string list"

datatype promise = Pending | Resolved parseResult | Rejected error

text \<open>What persists across calls on one request: the content-type header, what the
  tokenizer's constructor does with the headers (\<open>None\<close>: it constructs; \<open>Some m\<close>: it
  throws an error with message \<open>m\<close>), the two decorated slots, how often the body stream
  has been piped, and the file system the request sees (files by path, directories).\<close>

record request =
  content_type :: "string option"
  bb_throws :: "string option"
  kMultipart :: "parseResult option"
  kTempFiles :: "string list option"
  piped :: nat
  fs :: "string \<rightharpoonup> bytes"
  dirs :: "string set"

text \<open>A write stream opened by the file handler, with the values its \<^verbatim>\<open>'finish'\<close>
  listener has captured. \<open>WOpen\<close>: receiving data; \<open>WEnding\<close>: \<^verbatim>\<open>end()\<close> was called by the
  pipe, the flush is outstanding; \<open>WFinished\<close>: \<^verbatim>\<open>'finish'\<close> was emitted.\<close>

datatype wstate = WOpen | WEnding | WFinished | WDestroyed | WErrored

record wstream =
  w_file :: fileObj
  w_state :: wstate

text \<open>The variables of one \<^verbatim>\<open>parseMultipart\<close> call. \<open>bb\<close> tells whether a tokenizer was
  created and its listeners registered. \<open>form_fields = None\<close> stands for a \<^verbatim>\<open>fields\<close> object
  whose prototype was replaced by a part named \<^verbatim>\<open>__proto__\<close>, which this model does not
  track further.\<close>

record session =
  req :: request
  bb :: bool
  files :: "fileObj list"
  form_fields :: "fields_obj option"
  tempFiles :: "string list"
  pendingFiles :: int
  finished :: bool
  promise :: promise
  writes :: "wstream list"

text \<open>The callbacks of the tokenizer, of the file streams it hands out and of the write
  streams. A file event carries the \<^verbatim>\<open>Date.now()\<close>/\<^verbatim>\<open>Math.random()\<close> part of the temp
  file name, which the environment chooses. Streams are numbered in the order of the file
  events.\<close>

datatype event =
    EvFile string info string
  | EvFileData nat bytes
  | EvFileLimit nat
  | EvFileEnd nat
  | EvWriteFinish nat
  | EvWriteError nat string
  | EvField string string
  | EvFinish
  | EvFilesLimit
  | EvFieldsLimit
  | EvError string

section \<open>Buffered parse: \<^verbatim>\<open>parseMultipart\<close>\<close>

text \<open>A promise settles once: a later \<^verbatim>\<open>resolve\<close> or \<^verbatim>\<open>reject\<close> is ignored.\<close>

definition resolve :: "parseResult \<Rightarrow> session \<Rightarrow> session" where
  "resolve r s = (if promise s = Pending then s\<lparr>promise := Resolved r\<rparr> else s)"

definition reject :: "error \<Rightarrow> session \<Rightarrow> session" where
  "reject e s = (if promise s = Pending then s\<lparr>promise := Rejected e\<rparr> else s)"

text \<open>The block that both the write stream's \<^verbatim>\<open>'finish'\<close> listener and the tokenizer's
  run when nothing is pending: store the result on the request, then resolve. The stored
  result is the value of the accumulators at that moment.\<close>

definition complete :: "session \<Rightarrow> session" where
  "complete s =
     (let result = \<lparr>r_files = files s, r_fields = form_fields s, r_tempFiles = tempFiles s\<rparr>
      in resolve result
           (s\<lparr>req := (req s)\<lparr>kMultipart := Some result, kTempFiles := Some (tempFiles s)\<rparr>\<rparr>))"

text \<open>\<^verbatim>\<open>path.join(config.tempDir, name)\<close> for a directory that is already normalised and
  has no trailing separator (as \<^verbatim>\<open>os.tmpdir()\<close> is); the file name has no separator.\<close>

definition path_join :: "string \<Rightarrow> string \<Rightarrow> string" where
  "path_join d f = d @ ''/'' @ f"

text \<open>\<^verbatim>\<open>bb.on('file', ...)\<close>.\<close>

definition on_file :: "config \<Rightarrow> string \<Rightarrow> info \<Rightarrow> string \<Rightarrow> session \<Rightarrow> session" where
  "on_file cfg fieldname' nfo stamp s =
     (let filename' = or_default (info_filename nfo) ''unnamed'';
          encoding' = or_default (info_encoding nfo) ''7bit'';
          mimetype' = or_default (info_mimeType nfo) ''application/octet-stream'';
          rq = req s;
          dirs' = (if tempDir cfg \<in> dirs rq then dirs rq else insert (tempDir cfg) (dirs rq));
          tempFilePath = path_join (tempDir cfg) (''upload_'' @ stamp);
          fileObj' = \<lparr>fieldname = fieldname', filename = filename', encoding = encoding',
                      mimetype = mimetype', tempPath = tempFilePath\<rparr>
      in s\<lparr>pendingFiles := pendingFiles s + 1,
           req := rq\<lparr>dirs := dirs', fs := (fs rq)(tempFilePath \<mapsto> [])\<rparr>,
           tempFiles := tempFiles s @ [tempFilePath],
           writes := writes s @ [\<lparr>w_file = fileObj', w_state = WOpen\<rparr>]\<rparr>)"

text \<open>\<^verbatim>\<open>file.pipe(writeStream)\<close>: a chunk of the file stream is written to the temp file
  while the write stream is open; the end of the file stream ends the write stream.\<close>

definition set_wstate :: "nat \<Rightarrow> wstate \<Rightarrow> session \<Rightarrow> session" where
  "set_wstate i st s = s\<lparr>writes := (writes s)[i := (writes s ! i)\<lparr>w_state := st\<rparr>]\<rparr>"

definition pipe_data :: "nat \<Rightarrow> bytes \<Rightarrow> session \<Rightarrow> session" where
  "pipe_data i chunk s =
     (if i < length (writes s) \<and> w_state (writes s ! i) = WOpen then
        (let p = tempPath (w_file (writes s ! i)) in
         case fs (req s) p of
           None \<Rightarrow> s
         | Some old \<Rightarrow> s\<lparr>req := (req s)\<lparr>fs := (fs (req s))(p \<mapsto> old @ chunk)\<rparr>\<rparr>)
      else s)"

definition pipe_end :: "nat \<Rightarrow> session \<Rightarrow> session" where
  "pipe_end i s =
     (if i < length (writes s) \<and> w_state (writes s ! i) = WOpen then set_wstate i WEnding s
      else s)"

text \<open>\<^verbatim>\<open>writeStream.on('finish', ...)\<close>. A write stream emits \<^verbatim>\<open>'finish'\<close> once, after
  \<^verbatim>\<open>end()\<close>; in any other state the event cannot occur and the state stays as it is.\<close>

definition on_write_finish :: "nat \<Rightarrow> session \<Rightarrow> session" where
  "on_write_finish i s =
     (if i < length (writes s) \<and> w_state (writes s ! i) = WEnding then
        (let s1 = set_wstate i WFinished s;
             s2 = s1\<lparr>files := files s1 @ [w_file (writes s ! i)],
                     pendingFiles := pendingFiles s1 - 1\<rparr>
         in if pendingFiles s2 = 0 \<and> finished s2 then complete s2 else s2)
      else s)"

text \<open>\<^verbatim>\<open>writeStream.on('error', reject)\<close>.\<close>

definition on_write_error :: "nat \<Rightarrow> string \<Rightarrow> session \<Rightarrow> session" where
  "on_write_error i m s =
     (if i < length (writes s) \<and> (w_state (writes s ! i) = WOpen \<or> w_state (writes s ! i) = WEnding)
      then reject (Underlying m) (set_wstate i WErrored s)
      else s)"

text \<open>\<^verbatim>\<open>bb.on('field', ...)\<close>. \<^verbatim>\<open>fields[fieldname]\<close> reads an own property or, failing
  that, a member of \<^verbatim>\<open>Object.prototype\<close>; the test is for truthiness, and the empty
  string is falsy.\<close>

definition object_prototype_keys :: "string list" where
  "object_prototype_keys =
     [''constructor'', ''hasOwnProperty'', ''isPrototypeOf'', ''propertyIsEnumerable'',
      ''toLocaleString'', ''toString'', ''valueOf'', ''__defineGetter__'',
      ''__defineSetter__'', ''__lookupGetter__'', ''__lookupSetter__'']"

definition get_prop :: "fields_obj \<Rightarrow> string \<Rightarrow> fval option" where
  "get_prop obj k =
     (case map_of obj k of
        Some v \<Rightarrow> Some v
      | None \<Rightarrow> if k \<in> set object_prototype_keys then Some (FInherited k) else None)"

fun set_prop :: "fields_obj \<Rightarrow> string \<Rightarrow> fval \<Rightarrow> fields_obj" where
  "set_prop [] k v = [(k, v)]"
| "set_prop ((k', v') # obj) k v =
     (if k' = k then (k, v) # obj else (k', v') # set_prop obj k v)"

fun truthy :: "fval option \<Rightarrow> bool" where
  "truthy None = False"
| "truthy (Some (FStr s)) = (s \<noteq> [])"
| "truthy (Some (FArr xs)) = True"
| "truthy (Some (FInherited k)) = True"

fun push_value :: "fval \<Rightarrow> string \<Rightarrow> fval" where
  "push_value (FArr xs) v = FArr (xs @ [FStr v])"
| "push_value w v = FArr [w, FStr v]"

definition on_field_obj :: "string \<Rightarrow> string \<Rightarrow> fields_obj \<Rightarrow> fields_obj" where
  "on_field_obj k v obj =
     (if truthy (get_prop obj k) then set_prop obj k (push_value (the (get_prop obj k)) v)
      else set_prop obj k (FStr v))"

definition on_field :: "string \<Rightarrow> string \<Rightarrow> session \<Rightarrow> session" where
  "on_field k v s =
     (case form_fields s of
        None \<Rightarrow> s
      | Some obj \<Rightarrow>
          if k = ''__proto__'' then s\<lparr>form_fields := None\<rparr>
          else s\<lparr>form_fields := Some (on_field_obj k v obj)\<rparr>)"

text \<open>\<^verbatim>\<open>bb.on('finish', ...)\<close>.\<close>

definition on_finish :: "session \<Rightarrow> session" where
  "on_finish s =
     (let s1 = s\<lparr>finished := True\<rparr>
      in if pendingFiles s1 = 0 then complete s1 else s1)"

text \<open>One callback. \<^verbatim>\<open>index.js\<close> registers no listener for the \<^verbatim>\<open>'limit'\<close> event of a
  file stream.\<close>

fun step :: "config \<Rightarrow> event \<Rightarrow> session \<Rightarrow> session" where
  "step cfg (EvFile k nfo stamp) s = on_file cfg k nfo stamp s"
| "step cfg (EvFileData i chunk) s = pipe_data i chunk s"
| "step cfg (EvFileLimit i) s = s"
| "step cfg (EvFileEnd i) s = pipe_end i s"
| "step cfg (EvWriteFinish i) s = on_write_finish i s"
| "step cfg (EvWriteError i m) s = on_write_error i m s"
| "step cfg (EvField k v) s = on_field k v s"
| "step cfg EvFinish s = on_finish s"
| "step cfg EvFilesLimit s = reject FilesLimit s"
| "step cfg EvFieldsLimit s = reject FieldsLimit s"
| "step cfg (EvError m) s = reject (Underlying m) s"

text \<open>Callbacks arrive only where a tokenizer was created.\<close>

definition deliver :: "config \<Rightarrow> session \<Rightarrow> event \<Rightarrow> session" where
  "deliver cfg s e = (if bb s then step cfg e s else s)"

definition run :: "config \<Rightarrow> event list \<Rightarrow> session \<Rightarrow> session" where
  "run cfg es s = foldl (deliver cfg) s es"

text \<open>The body of the promise executor of \<^verbatim>\<open>parseMultipart\<close>, up to
  \<^verbatim>\<open>request.raw.pipe(bb)\<close>. An exception of the tokenizer's constructor rejects the
  promise, as any exception in an executor does.\<close>

definition is_multipart :: "request \<Rightarrow> bool" where
  "is_multipart rq =
     (case content_type rq of None \<Rightarrow> False | Some ct \<Rightarrow> str_includes ct ''multipart/form-data'')"

definition new_session :: "request \<Rightarrow> bool \<Rightarrow> promise \<Rightarrow> session" where
  "new_session rq b p =
     \<lparr>req = rq, bb = b, files = [], form_fields = Some [], tempFiles = [], pendingFiles = 0,
      finished = False, promise = p, writes = []\<rparr>"

definition parseMultipart :: "request \<Rightarrow> session" where
  "parseMultipart rq =
     (if \<not> is_multipart rq then new_session rq False (Rejected InvalidMultipartContentType)
      else case bb_throws rq of
             Some m \<Rightarrow> new_session rq False (Rejected (Underlying m))
           | None \<Rightarrow> new_session (rq\<lparr>piped := piped rq + 1\<rparr>) True Pending)"


subsection \<open>The second file's buffered parse\<close>

text \<open>The second file registers \<^verbatim>\<open>file.on('limit', ...)\<close> in its file handler, which
  destroys the write stream and rejects, and its tokenizer error listener turns an error
  whose message mentions the file size limit into \<^verbatim>\<open>FileSizeLimit\<close>. Its other listeners
  and its executor have the text of \<^verbatim>\<open>index.js\<close> (its \<^verbatim>\<open>finished\<close> is a local variable
  where \<^verbatim>\<open>index.js\<close> uses a property of the tokenizer).\<close>

definition destroy_write :: "nat \<Rightarrow> session \<Rightarrow> session" where
  "destroy_write i s =
     (if w_state (writes s ! i) = WOpen \<or> w_state (writes s ! i) = WEnding
      then set_wstate i WDestroyed s else s)"

definition on_file_limit_p6 :: "config \<Rightarrow> nat \<Rightarrow> session \<Rightarrow> session" where
  "on_file_limit_p6 cfg i s =
     (if i < length (writes s) then
        reject (FileSizeLimit (''File size exceeds limit of '' @ show_nat (limits_fileSize cfg)
                               @ '' bytes''))
          (destroy_write i s)
      else s)"

definition on_error_p6 :: "string \<Rightarrow> session \<Rightarrow> session" where
  "on_error_p6 m s =
     (if m \<noteq> [] \<and> str_includes m ''File size limit exceeded'' then reject (FileSizeLimit m) s
      else reject (Underlying m) s)"

fun step_p6 :: "config \<Rightarrow> event \<Rightarrow> session \<Rightarrow> session" where
  "step_p6 cfg (EvFileLimit i) s = on_file_limit_p6 cfg i s"
| "step_p6 cfg (EvError m) s = on_error_p6 m s"
| "step_p6 cfg e s = step cfg e s"

definition deliver_p6 :: "config \<Rightarrow> session \<Rightarrow> event \<Rightarrow> session" where
  "deliver_p6 cfg s e = (if bb s then step_p6 cfg e s else s)"

definition run_p6 :: "config \<Rightarrow> event list \<Rightarrow> session \<Rightarrow> session" where
  "run_p6 cfg es s = foldl (deliver_p6 cfg) s es"

text \<open>The second file's \<^verbatim>\<open>file()\<close> and \<^verbatim>\<open>files()\<close> read the stored result.\<close>

definition not_parsed :: error where
  "not_parsed = Underlying ''Multipart data not parsed. Call parseMultipart() first.''"

definition file_p6 :: "request \<Rightarrow> error + fileObj option" where
  "file_p6 rq =
     (case kMultipart rq of
        Some r \<Rightarrow> Inr (case r_files r of [] \<Rightarrow> None | f # _ \<Rightarrow> Some f)
      | None \<Rightarrow> Inl not_parsed)"

definition files_p6 :: "request \<Rightarrow> error + fileObj list" where
  "files_p6 rq = (case kMultipart rq of Some r \<Rightarrow> Inr (r_files r) | None \<Rightarrow> Inl not_parsed)"

section \<open>File descriptor methods\<close>

text \<open>\<^verbatim>\<open>fs.statSync(path).size\<close> and \<^verbatim>\<open>fs.promises.readFile(path)\<close> fail on a path that
  does not exist; the \<^verbatim>\<open>size\<close> getter catches the failure.\<close>

definition enoent :: error where
  "enoent = Underlying ''ENOENT: no such file or directory''"

definition statSync_size :: "(string \<rightharpoonup> bytes) \<Rightarrow> string \<Rightarrow> error + nat" where
  "statSync_size f p = (case f p of None \<Rightarrow> Inl enoent | Some b \<Rightarrow> Inr (length b))"

definition get_size :: "(string \<rightharpoonup> bytes) \<Rightarrow> fileObj \<Rightarrow> nat" where
  "get_size f fo = (case statSync_size f (tempPath fo) of Inl e \<Rightarrow> 0 | Inr n \<Rightarrow> n)"

definition toBuffer :: "(string \<rightharpoonup> bytes) \<Rightarrow> fileObj \<Rightarrow> error + bytes" where
  "toBuffer f fo = (case f (tempPath fo) of None \<Rightarrow> Inl enoent | Some b \<Rightarrow> Inr b)"

section \<open>Cleanup\<close>

text \<open>\<^verbatim>\<open>fs.promises.unlink(tempPath).catch(() => {})\<close>.\<close>

definition unlink :: "(string \<rightharpoonup> bytes) \<Rightarrow> string \<Rightarrow> error + (string \<rightharpoonup> bytes)" where
  "unlink f p = (case f p of None \<Rightarrow> Inl enoent | Some b \<Rightarrow> Inr (f(p := None)))"

definition unlink_catch :: "(string \<rightharpoonup> bytes) \<Rightarrow> string \<Rightarrow> (string \<rightharpoonup> bytes)" where
  "unlink_catch f p = (case unlink f p of Inl e \<Rightarrow> f | Inr f' \<Rightarrow> f')"

text \<open>\<^verbatim>\<open>cleanupTempFiles(tempFiles)\<close>: an array argument is truthy, also when empty; with no
  argument the request's slot is used, and \<^verbatim>\<open>null.map\<close> raises.\<close>

definition cleanupTempFiles :: "string list option \<Rightarrow> request \<Rightarrow> error + request" where
  "cleanupTempFiles arg rq =
     (case (case arg of Some ps \<Rightarrow> Some ps | None \<Rightarrow> kTempFiles rq) of
        None \<Rightarrow> Inl TypeError
      | Some filesToClean \<Rightarrow> Inr (rq\<lparr>fs := foldl unlink_catch (fs rq) filesToClean\<rparr>))"

text \<open>The \<^verbatim>\<open>onResponse\<close> hook.\<close>

definition onResponse :: "request \<Rightarrow> error + request" where
  "onResponse rq =
     (case kTempFiles rq of
        None \<Rightarrow> Inr rq
      | Some ps \<Rightarrow> if length ps > 0 then cleanupTempFiles None rq else Inr rq)"

section \<open>Streaming iterator: \<^verbatim>\<open>parts\<close>\<close>

text \<open>A queued part. In \<^verbatim>\<open>index.js\<close> a tokenizer error is queued as a part of its own.
  \<open>p_stream\<close> is the number of the stream the part carries. Only the second file gives a
  file part a \<^verbatim>\<open>size\<close> property: the counter's value when the part is queued.\<close>

record file_part =
  p_fieldname :: string
  p_filename :: string
  p_encoding :: string
  p_mimetype :: string
  p_stream :: nat
  p_size :: "nat option"

datatype part = PartFile file_part | PartField string string | PartError error

text \<open>The stream of a file part. \<open>src_state\<close> and \<open>src_chunks\<close> describe the tokenizer's
  stream and the data it has emitted. In \<^verbatim>\<open>index.js\<close> that stream itself is the part's
  stream. The second file gives the part a \<^verbatim>\<open>PassThrough\<close>: \<open>pt_chunks\<close> are the chunks
  written to it, \<open>pt_state\<close> is its state, \<open>fileSize\<close> is the listener's counter.\<close>

datatype sstate = SFlowing | SEnded | SDestroyed error

record fstream =
  src_state :: sstate
  src_chunks :: "bytes list"
  fileSize :: nat
  pt_chunks :: "bytes list"
  pt_state :: sstate

record iter =
  parts :: "part list"
  it_finished :: bool
  it_error :: "error option"
  it_done :: bool
  streams :: "fstream list"

datatype sevent =
    SvFile string info
  | SvData nat bytes
  | SvEnd nat
  | SvLimit nat
  | SvStreamError nat
  | SvField string string
  | SvFinish
  | SvError string
  | SvFilesLimit
  | SvFieldsLimit
  | SvPartsLimit

definition new_stream :: fstream where
  "new_stream = \<lparr>src_state = SFlowing, src_chunks = [], fileSize = 0, pt_chunks = [],
                 pt_state = SFlowing\<rparr>"

definition new_iter :: iter where
  "new_iter = \<lparr>parts = [], it_finished = False, it_error = None, it_done = False, streams = []\<rparr>"

definition push_file_part :: "string \<Rightarrow> info \<Rightarrow> nat option \<Rightarrow> iter \<Rightarrow> iter" where
  "push_file_part k nfo sz it =
     it\<lparr>parts := parts it @
            [PartFile \<lparr>p_fieldname = k,
                       p_filename = or_default (info_filename nfo) ''unnamed'',
                       p_encoding = or_default (info_encoding nfo) ''7bit'',
                       p_mimetype = or_default (info_mimeType nfo) ''application/octet-stream'',
                       p_stream = length (streams it), p_size = sz\<rparr>],
        streams := streams it @ [new_stream]\<rparr>"

definition upd_stream :: "nat \<Rightarrow> (fstream \<Rightarrow> fstream) \<Rightarrow> iter \<Rightarrow> iter" where
  "upd_stream i f it = it\<lparr>streams := (streams it)[i := f (streams it ! i)]\<rparr>"

definition flowing :: "nat \<Rightarrow> iter \<Rightarrow> bool" where
  "flowing i it = (i < length (streams it) \<and> src_state (streams it ! i) = SFlowing)"

subsection \<open>\<^verbatim>\<open>index.js\<close>\<close>

text \<open>The listeners of \<^verbatim>\<open>index.js\<close>: file, field, finish and error. The part's stream is
  the tokenizer's, so its data and its end reach the consumer as they are. Neither file's
  iterator listens to the \<^verbatim>\<open>'limit'\<close> event of a file stream (\<open>SvLimit\<close>).\<close>

fun step_parts :: "config \<Rightarrow> sevent \<Rightarrow> iter \<Rightarrow> iter" where
  "step_parts cfg (SvFile k nfo) it = push_file_part k nfo None it"
| "step_parts cfg (SvData i chunk) it =
     (if flowing i it then upd_stream i (\<lambda>st. st\<lparr>src_chunks := src_chunks st @ [chunk]\<rparr>) it
      else it)"
| "step_parts cfg (SvEnd i) it =
     (if flowing i it then upd_stream i (\<lambda>st. st\<lparr>src_state := SEnded\<rparr>) it else it)"
| "step_parts cfg (SvLimit i) it = it"
| "step_parts cfg (SvStreamError i) it = it"
| "step_parts cfg (SvField k v) it = it\<lparr>parts := parts it @ [PartField k v]\<rparr>"
| "step_parts cfg SvFinish it = it\<lparr>it_finished := True\<rparr>"
| "step_parts cfg (SvError m) it = it\<lparr>parts := parts it @ [PartError (Underlying m)]\<rparr>"
| "step_parts cfg SvFilesLimit it = it"
| "step_parts cfg SvFieldsLimit it = it"
| "step_parts cfg SvPartsLimit it = it"

definition run_parts :: "config \<Rightarrow> sevent list \<Rightarrow> iter \<Rightarrow> iter" where
  "run_parts cfg es it = foldl (\<lambda>it e. step_parts cfg e it) it es"

text \<open>One resumption of the generator. \<open>Wait\<close> is the \<^verbatim>\<open>setImmediate\<close> pause, after which
  the loop goes on.\<close>

datatype outcome = Yield part | Throw error | Wait | Done


subsection \<open>The second file\<close>

text \<open>\<^verbatim>\<open>stream.on('data', ...)\<close>: count, and past the limit destroy the tokenizer's stream
  with the error instead of writing the chunk. A limit of 0 is falsy and switches the
  test off.\<close>

definition on_data_p6 :: "config \<Rightarrow> nat \<Rightarrow> bytes \<Rightarrow> iter \<Rightarrow> iter" where
  "on_data_p6 cfg i chunk it =
     (let n = fileSize (streams it ! i) + length chunk;
          st = (streams it ! i)\<lparr>src_chunks := src_chunks (streams it ! i) @ [chunk], fileSize := n\<rparr>
      in if limits_fileSize cfg \<noteq> 0 \<and> n > limits_fileSize cfg then
           (upd_stream i (\<lambda>x. st\<lparr>src_state := SDestroyed (FileSizeLimit (show_nat n @ '' bytes''))\<rparr>) it)
             \<lparr>it_error := Some (FileSizeLimit (show_nat n @ '' bytes'')), it_finished := True\<rparr>
         else upd_stream i (\<lambda>x. st\<lparr>pt_chunks := pt_chunks st @ [chunk]\<rparr>) it)"

text \<open>\<^verbatim>\<open>stream.on('error', ...)\<close>: a destroyed stream emits the error it was destroyed
  with, and the listener destroys the \<^verbatim>\<open>PassThrough\<close> with it.\<close>

definition on_stream_error_p6 :: "nat \<Rightarrow> iter \<Rightarrow> iter" where
  "on_stream_error_p6 i it =
     (if i < length (streams it) then
        (case src_state (streams it ! i) of
           SDestroyed e \<Rightarrow> upd_stream i (\<lambda>st. st\<lparr>pt_state := SDestroyed e\<rparr>) it
         | _ \<Rightarrow> it)
      else it)"

definition fail_p6 :: "error \<Rightarrow> iter \<Rightarrow> iter" where
  "fail_p6 e it = it\<lparr>it_error := Some e, it_finished := True\<rparr>"

fun step_parts_p6 :: "config \<Rightarrow> sevent \<Rightarrow> iter \<Rightarrow> iter" where
  "step_parts_p6 cfg (SvFile k nfo) it = push_file_part k nfo (Some 0) it"
| "step_parts_p6 cfg (SvData i chunk) it = (if flowing i it then on_data_p6 cfg i chunk it else it)"
| "step_parts_p6 cfg (SvEnd i) it =
     (if flowing i it then upd_stream i (\<lambda>st. st\<lparr>src_state := SEnded, pt_state := SEnded\<rparr>) it
      else it)"
| "step_parts_p6 cfg (SvLimit i) it = it"
| "step_parts_p6 cfg (SvStreamError i) it = on_stream_error_p6 i it"
| "step_parts_p6 cfg (SvField k v) it = it\<lparr>parts := parts it @ [PartField k v]\<rparr>"
| "step_parts_p6 cfg SvFinish it = it\<lparr>it_finished := True\<rparr>"
| "step_parts_p6 cfg (SvError m) it = fail_p6 (Underlying m) it"
| "step_parts_p6 cfg SvFilesLimit it = fail_p6 FilesLimit it"
| "step_parts_p6 cfg SvFieldsLimit it = fail_p6 FieldsLimit it"
| "step_parts_p6 cfg SvPartsLimit it = fail_p6 (Underlying ''Parts limit exceeded'') it"

definition run_parts_p6 :: "config \<Rightarrow> sevent list \<Rightarrow> iter \<Rightarrow> iter" where
  "run_parts_p6 cfg es it = foldl (\<lambda>it e. step_parts_p6 cfg e it) it es"

definition next_part_p6 :: "iter \<Rightarrow> outcome \<times> iter" where
  "next_part_p6 it =
     (if it_done it then (Done, it)
      else if \<not> it_finished it then
        (case it_error it of
           Some e \<Rightarrow> (Throw e, it\<lparr>it_done := True\<rparr>)
         | None \<Rightarrow>
             (case parts it of
                p # ps \<Rightarrow> (Yield p, it\<lparr>parts := ps\<rparr>)
              | [] \<Rightarrow> (Wait, it)))
      else
        (case parts it of
           p # ps \<Rightarrow> (Yield p, it\<lparr>parts := ps\<rparr>)
         | [] \<Rightarrow>
             (case it_error it of
                Some e \<Rightarrow> (Throw e, it\<lparr>it_done := True\<rparr>)
              | None \<Rightarrow> (Done, it\<lparr>it_done := True\<rparr>))))"

text \<open>The start of the generator body, in both files: the content type check, the
  tokenizer's constructor and \<^verbatim>\<open>this.raw.pipe(bb)\<close>.\<close>

definition parts_start :: "request \<Rightarrow> error + iter \<times> request" where
  "parts_start rq =
     (if \<not> is_multipart rq then Inl InvalidMultipartContentType
      else case bb_throws rq of
             Some m \<Rightarrow> Inl (Underlying m)
           | None \<Rightarrow> Inr (new_iter, rq\<lparr>piped := piped rq + 1\<rparr>))"


section \<open>Auxiliary notions and example inputs\<close>

text \<open>A property of \<^verbatim>\<open>info\<close> is falsy when it is missing or the empty string.\<close>

definition falsy :: "string option \<Rightarrow> bool" where
  "falsy v = (v = None \<or> v = Some [])"

text \<open>The write streams that have not emitted \<^verbatim>\<open>'finish'\<close>, and the statement that the
  counter \<^verbatim>\<open>pendingFiles\<close> is their number.\<close>

definition unflushed :: "wstream list \<Rightarrow> nat" where
  "unflushed ws = length (filter (\<lambda>w. w_state w \<noteq> WFinished) ws)"

definition counted :: "session \<Rightarrow> bool" where
  "counted s = (pendingFiles s = int (unflushed (writes s)))"

text \<open>A multipart request and a JSON request on an empty temp directory, the
  configuration of the test \<^verbatim>\<open>should handle file size limit\<close>
  (\<^verbatim>\<open>limits: { fileSize: 100 }\<close>), and two \<^verbatim>\<open>info\<close> objects.\<close>

definition req0 :: request where
  "req0 = \<lparr>content_type = Some ''multipart/form-data; boundary=x'', bb_throws = None,
           kMultipart = None, kTempFiles = None, piped = 0, fs = Map.empty, dirs = {}\<rparr>"

definition req_json :: request where
  "req_json = \<lparr>content_type = Some ''application/json'', bb_throws = None,
               kMultipart = None, kTempFiles = None, piped = 0, fs = Map.empty, dirs = {}\<rparr>"

definition cfg0 :: config where
  "cfg0 = \<lparr>limits_fileSize = 100, tempDir = ''/tmp''\<rparr>"

definition info0 :: info where
  "info0 = \<lparr>info_filename = Some ''large.txt'', info_encoding = Some ''7bit'',
            info_mimeType = Some ''text/plain''\<rparr>"

definition info_none :: info where
  "info_none = \<lparr>info_filename = None, info_encoding = Some [], info_mimeType = None\<rparr>"

text \<open>One file part of two bytes, up to the end of its stream.\<close>

definition small_file :: "event list" where
  "small_file = [EvFile ''file'' info0 ''1_a'', EvFileData 0 [72, 105], EvFileEnd 0]"

definition small_result :: parseResult where
  "small_result =
     \<lparr>r_files = [\<lparr>fieldname = ''file'', filename = ''large.txt'', encoding = ''7bit'',
                  mimetype = ''text/plain'', tempPath = ''/tmp/upload_1_a''\<rparr>],
      r_fields = Some [], r_tempFiles = [''/tmp/upload_1_a'']\<rparr>"

text \<open>A two-byte file on disk and its descriptor.\<close>

definition disk1 :: "string \<rightharpoonup> bytes" where
  "disk1 = [''/tmp/upload_1_a'' \<mapsto> [72, 105]]"

definition fo1 :: fileObj where
  "fo1 = \<lparr>fieldname = ''file'', filename = ''large.txt'', encoding = ''7bit'',
          mimetype = ''text/plain'', tempPath = ''/tmp/upload_1_a''\<rparr>"

text \<open>What the tokenizer emits for the 200-byte part of the test
  \<^verbatim>\<open>should handle file size limit\<close> under \<^verbatim>\<open>limits: { fileSize: 100 }\<close>: it queues the
  first 100 bytes on the file stream and emits \<^verbatim>\<open>'limit'\<close> on it at once, before the queued
  data reaches the pipe; then come the data, the end of the truncated stream and the
  tokenizer's own \<^verbatim>\<open>'finish'\<close>, and last the flush of the write stream (where it is still
  open).\<close>

definition big_file :: "event list" where
  "big_file = [EvFile ''file'' info0 ''1_a'', EvFileLimit 0, EvFileData 0 (replicate 100 120),
               EvFileEnd 0, EvFinish, EvWriteFinish 0]"

definition john_result :: parseResult where
  "john_result = \<lparr>r_files = [], r_fields = Some [(''name'', FStr ''John'')], r_tempFiles = []\<rparr>"

text \<open>The request after a parse of one small file has resolved, and the request after a
  parse in which the tokenizer failed on the rest of the body once the file had been
  received and written.\<close>

definition tracked_req :: request where
  "tracked_req = req (run cfg0 (small_file @ [EvFinish, EvWriteFinish 0]) (parseMultipart req0))"

definition aborted_req :: request where
  "aborted_req = req (run cfg0 (small_file @ [EvWriteFinish 0, EvError ''Unexpected end of form''])
                        (parseMultipart req0))"

text \<open>For the streaming iterator: the number of bytes in a list of chunks, the error of
  the second file's data listener, and what holds of each of its streams: the counter is
  the number of bytes the tokenizer's stream has emitted; the \<^verbatim>\<open>PassThrough\<close> has received
  no more than the limit; up to the limit it has received every chunk, and past the limit
  the tokenizer's stream is destroyed with the size error.\<close>

definition bytes_of :: "bytes list \<Rightarrow> nat" where
  "bytes_of cs = sum_list (map length cs)"

definition size_error :: "nat \<Rightarrow> error" where
  "size_error n = FileSizeLimit (show_nat n @ '' bytes'')"

definition stream_ok :: "config \<Rightarrow> fstream \<Rightarrow> bool" where
  "stream_ok cfg st =
     (fileSize st = bytes_of (src_chunks st)
      \<and> bytes_of (pt_chunks st) \<le> limits_fileSize cfg
      \<and> (if fileSize st \<le> limits_fileSize cfg then pt_chunks st = src_chunks st
          else src_state st = SDestroyed (size_error (fileSize st))))"


definition no_size_part :: "part \<Rightarrow> bool" where
  "no_size_part p = (case p of PartError (FileSizeLimit a) \<Rightarrow> False | _ \<Rightarrow> True)"


text \<open>What the counter of the second file needs before it can fire: an error of the
  iterator that is a size error, or a destroyed stream, is there only if some counter has
  passed the limit.\<close>

definition is_size_error :: "error option \<Rightarrow> bool" where
  "is_size_error e = (case e of Some (FileSizeLimit a) \<Rightarrow> True | _ \<Rightarrow> False)"

definition is_destroyed :: "sstate \<Rightarrow> bool" where
  "is_destroyed st = (case st of SDestroyed e \<Rightarrow> True | _ \<Rightarrow> False)"

definition over_limit :: "config \<Rightarrow> iter \<Rightarrow> bool" where
  "over_limit cfg it =
     list_ex (\<lambda>st. limits_fileSize cfg < bytes_of (src_chunks st)) (streams it)"

definition calm :: "config \<Rightarrow> iter \<Rightarrow> bool" where
  "calm cfg it =
     (if over_limit cfg it then True
      else \<not> is_size_error (it_error it)
           \<and> list_all (\<lambda>st. \<not> is_destroyed (src_state st) \<and> \<not> is_destroyed (pt_state st)
                              \<and> pt_chunks st = src_chunks st
                              \<and> fileSize st = bytes_of (src_chunks st))
                 (streams it))"

text \<open>The media type that a content-type header declares is the text before its first
  \<^verbatim>\<open>;\<close>. A header that declares \<^verbatim>\<open>application/json\<close> and carries the text
  \<^verbatim>\<open>multipart/form-data\<close> in a parameter, with what the tokenizer's constructor does for a
  type it does not support, and the same header with a constructor that accepts it.\<close>

definition declared_type :: "string \<Rightarrow> string" where
  "declared_type ct = takeWhile (\<lambda>c. c \<noteq> CHR '';'') ct"

definition req_note :: request where
  "req_note = \<lparr>content_type = Some ''application/json; note=multipart/form-data'',
               bb_throws = Some ''Unsupported content type: application/json; note=multipart/form-data'',
               kMultipart = None, kTempFiles = None, piped = 0, fs = Map.empty, dirs = {}\<rparr>"

definition req_note_accepted :: request where
  "req_note_accepted = req_note\<lparr>bb_throws := None\<rparr>"

text \<open>What the tokenizer emits under \<^verbatim>\<open>limits: { fields: 1 }\<close> for a body of two fields.\<close>

definition two_fields :: "event list" where
  "two_fields = [EvField ''name'' ''John'', EvFieldsLimit, EvFinish]"


text \<open>For the file size limit of the buffered parse: a promise rejected with
  \<^verbatim>\<open>FileSizeLimit\<close>, and a call one of whose write streams was destroyed.\<close>

definition is_size_rejection :: "promise \<Rightarrow> bool" where
  "is_size_rejection p = (case p of Rejected (FileSizeLimit a) \<Rightarrow> True | _ \<Rightarrow> False)"

definition has_destroyed :: "session \<Rightarrow> bool" where
  "has_destroyed s = list_ex (\<lambda>w. w_state w = WDestroyed) (writes s)"

text \<open>For repeated fields: the values submitted under a name, in order; what the claim
  expects \<^verbatim>\<open>fields\<close> to hold for them; the field listener run over a list of name/value
  pairs from the empty object; and the tokenizer's callbacks for such a list.\<close>

definition values_for :: "string \<Rightarrow> (string \<times> string) list \<Rightarrow> string list" where
  "values_for k kvs = map snd (filter (\<lambda>kv. fst kv = k) kvs)"

fun collected :: "string list \<Rightarrow> fval option" where
  "collected [] = None"
| "collected [v] = Some (FStr v)"
| "collected vs = Some (FArr (map FStr vs))"

definition on_fields :: "(string \<times> string) list \<Rightarrow> fields_obj" where
  "on_fields kvs = foldl (\<lambda>obj kv. on_field_obj (fst kv) (snd kv) obj) [] kvs"

definition field_events :: "(string \<times> string) list \<Rightarrow> event list" where
  "field_events kvs = map (\<lambda>kv. EvField (fst kv) (snd kv)) kvs"

text \<open>A queued file part refers to a stream that exists.\<close>

definition has_stream :: "iter \<Rightarrow> part \<Rightarrow> bool" where
  "has_stream it p = (case p of PartFile fp \<Rightarrow> p_stream fp < length (streams it) | _ \<Rightarrow> True)"

section \<open>Properties of the buffered parse\<close>

lemmas handler_defs = on_file_def pipe_data_def pipe_end_def on_write_finish_def
  on_write_error_def on_field_def on_finish_def complete_def resolve_def reject_def
  set_wstate_def

lemma run_Nil [simp]: "run cfg [] s = s"
  by (simp add: run_def)

lemma run_snoc [simp]: "run cfg (es @ [e]) s = deliver cfg (run cfg es s) e"
  by (simp add: run_def)

lemma run_no_tokenizer: "\<not> bb s \<Longrightarrow> run cfg es s = s"
  by (induction es rule: rev_induct) (simp_all add: deliver_def)

lemma run_p6_no_tokenizer: "\<not> bb s \<Longrightarrow> run_p6 cfg es s = s"
  by (induction es rule: rev_induct) (simp_all add: run_p6_def deliver_p6_def)

lemma step_headers:
  "content_type (req (step cfg e s)) = content_type (req s)
   \<and> bb_throws (req (step cfg e s)) = bb_throws (req s)
   \<and> piped (req (step cfg e s)) = piped (req s)
   \<and> bb (step cfg e s) = bb s"
  by (cases e) (auto simp: handler_defs Let_def split: option.splits)

lemma run_headers:
  "content_type (req (run cfg es s)) = content_type (req s)
   \<and> bb_throws (req (run cfg es s)) = bb_throws (req s)
   \<and> piped (req (run cfg es s)) = piped (req s)
   \<and> bb (run cfg es s) = bb s"
  by (induction es rule: rev_induct) (simp_all add: deliver_def step_headers)

lemma parseMultipart_pending:
  "promise (parseMultipart rq) = Pending \<longleftrightarrow> is_multipart rq \<and> bb_throws rq = None"
  by (simp add: parseMultipart_def new_session_def split: option.splits)

lemma parseMultipart_fresh:
  assumes "is_multipart rq" "bb_throws rq = None"
  shows "parseMultipart rq = new_session (rq\<lparr>piped := piped rq + 1\<rparr>) True Pending"
  using assms by (simp add: parseMultipart_def)

text \<open>A callback that leaves the promise pending found it pending and has not touched
  the request's slots: they are assigned only in \<open>complete\<close>, which resolves. The two
  slots are assigned together.\<close>

lemma step_pending_back:
  "promise (step cfg e s) = Pending \<Longrightarrow>
     promise s = Pending \<and> kTempFiles (req (step cfg e s)) = kTempFiles (req s)
       \<and> kMultipart (req (step cfg e s)) = kMultipart (req s)"
  by (cases e) (auto simp: handler_defs Let_def split: if_splits option.splits)

lemma run_pending_slots:
  "promise (run cfg es s) = Pending \<Longrightarrow>
     kTempFiles (req (run cfg es s)) = kTempFiles (req s)
       \<and> kMultipart (req (run cfg es s)) = kMultipart (req s)"
proof (induction es rule: rev_induct)
  case Nil
  then show ?case by simp
next
  case (snoc e es)
  show ?case
  proof (cases "bb (run cfg es s)")
    case True
    with snoc.prems have p: "promise (step cfg e (run cfg es s)) = Pending"
      by (simp add: deliver_def)
    from step_pending_back [OF p] snoc.IH True show ?thesis
      by (simp add: deliver_def)
  next
    case False
    with snoc show ?thesis by (simp add: deliver_def)
  qed
qed

lemma run_pending_start: "promise (run cfg es s) = Pending \<Longrightarrow> promise s = Pending"
proof (induction es rule: rev_induct)
  case Nil
  then show ?case by simp
next
  case (snoc e es)
  then show ?case
    by (cases "bb (run cfg es s)") (auto simp: deliver_def dest: step_pending_back)
qed

lemma step_resolves_stores:
  "promise s = Pending \<Longrightarrow> promise (step cfg e s) = Resolved r \<Longrightarrow>
     kMultipart (req (step cfg e s)) = Some r"
  by (cases e) (auto simp: handler_defs Let_def split: if_splits option.splits)

lemma step_slots:
  "(kTempFiles (req s) = None) = (kMultipart (req s) = None) \<Longrightarrow>
   (kTempFiles (req (step cfg e s)) = None) = (kMultipart (req (step cfg e s)) = None)"
  by (cases e) (auto simp: handler_defs Let_def split: option.splits)

lemma run_slots:
  "(kTempFiles (req s) = None) = (kMultipart (req s) = None) \<Longrightarrow>
   (kTempFiles (req (run cfg es s)) = None) = (kMultipart (req (run cfg es s)) = None)"
  by (induction es rule: rev_induct) (simp_all add: deliver_def step_slots)

text \<open>Every temp path a call allocates is tracked in \<^verbatim>\<open>tempFiles\<close>.\<close>

lemma map_update_same:
  "i < length ws \<Longrightarrow>
     (map (\<lambda>w. tempPath (w_file w)) ws)[i := tempPath (w_file (ws ! i))]
       = map (\<lambda>w. tempPath (w_file w)) ws"
  by (simp add: list_update_same_conv)

lemma step_tracks:
  "tempFiles s = map (\<lambda>w. tempPath (w_file w)) (writes s) \<Longrightarrow>
   tempFiles (step cfg e s) = map (\<lambda>w. tempPath (w_file w)) (writes (step cfg e s))"
  by (cases e) (auto simp: handler_defs Let_def map_update map_update_same split: option.splits)

lemma run_tracks:
  "tempFiles (run cfg es (parseMultipart rq))
     = map (\<lambda>w. tempPath (w_file w)) (writes (run cfg es (parseMultipart rq)))"
proof (induction es rule: rev_induct)
  case Nil
  show ?case by (simp add: parseMultipart_def new_session_def split: option.splits)
next
  case (snoc e es)
  then show ?case by (simp add: deliver_def step_tracks)
qed

lemma step_resolves_tracks:
  "promise s = Pending \<Longrightarrow> promise (step cfg e s) = Resolved r \<Longrightarrow>
     kTempFiles (req (step cfg e s)) = Some (tempFiles (step cfg e s))
     \<and> r_tempFiles r = tempFiles (step cfg e s) \<and> r_files r = files (step cfg e s)"
  by (cases e) (auto simp: handler_defs Let_def split: if_splits option.splits)

subsection \<open>The pending counter\<close>

text \<open>In every run, \<^verbatim>\<open>pendingFiles\<close> is the number of write streams that have not
  emitted \<^verbatim>\<open>'finish'\<close>.\<close>

lemma unflushed_append [simp]:
  "unflushed (ws @ [w]) = unflushed ws + (if w_state w \<noteq> WFinished then 1 else 0)"
  by (simp add: unflushed_def)

lemma unflushed_update:
  "i < length ws \<Longrightarrow>
     unflushed (ws[i := w]) + (if w_state (ws ! i) \<noteq> WFinished then 1 else 0)
       = unflushed ws + (if w_state w \<noteq> WFinished then 1 else 0)"
proof (induction ws arbitrary: i)
  case Nil
  then show ?case by simp
next
  case (Cons x xs)
  show ?case
  proof (cases i)
    case 0
    then show ?thesis by (simp add: unflushed_def)
  next
    case (Suc j)
    with Cons.prems have "j < length xs" by simp
    from Cons.IH [OF this] Suc show ?thesis by (simp add: unflushed_def)
  qed
qed

lemma unflushed_zero: "unflushed ws = 0 \<Longrightarrow> w \<in> set ws \<Longrightarrow> w_state w = WFinished"
  by (auto simp: unflushed_def filter_empty_conv)

lemma step_counted: "counted s \<Longrightarrow> counted (step cfg e s)"
proof (cases e)
  case (EvFile k nfo stamp)
  assume "counted s"
  then show ?thesis using EvFile by (simp add: counted_def on_file_def Let_def)
next
  case (EvFileEnd i)
  assume c: "counted s"
  show ?thesis
  proof (cases "i < length (writes s) \<and> w_state (writes s ! i) = WOpen")
    case True
    then have "unflushed ((writes s)[i := (writes s ! i)\<lparr>w_state := WEnding\<rparr>]) = unflushed (writes s)"
      using unflushed_update [of i "writes s" "(writes s ! i)\<lparr>w_state := WEnding\<rparr>"] by simp
    with c True EvFileEnd show ?thesis by (simp add: counted_def pipe_end_def set_wstate_def)
  next
    case False
    with c EvFileEnd show ?thesis by (auto simp add: pipe_end_def)
  qed
next
  case (EvWriteFinish i)
  assume c: "counted s"
  show ?thesis
  proof (cases "i < length (writes s) \<and> w_state (writes s ! i) = WEnding")
    case True
    then have "unflushed ((writes s)[i := (writes s ! i)\<lparr>w_state := WFinished\<rparr>]) + 1
                 = unflushed (writes s)"
      using unflushed_update [of i "writes s" "(writes s ! i)\<lparr>w_state := WFinished\<rparr>"] by simp
    with c True EvWriteFinish show ?thesis
      by (auto simp add: counted_def on_write_finish_def set_wstate_def complete_def resolve_def
            Let_def)
  next
    case False
    with c EvWriteFinish show ?thesis by (auto simp add: on_write_finish_def)
  qed
next
  case (EvWriteError i m)
  assume c: "counted s"
  show ?thesis
  proof (cases "i < length (writes s)
                 \<and> (w_state (writes s ! i) = WOpen \<or> w_state (writes s ! i) = WEnding)")
    case True
    then have "unflushed ((writes s)[i := (writes s ! i)\<lparr>w_state := WErrored\<rparr>]) = unflushed (writes s)"
      using unflushed_update [of i "writes s" "(writes s ! i)\<lparr>w_state := WErrored\<rparr>"] by auto
    with c True EvWriteError show ?thesis
      by (auto simp add: counted_def on_write_error_def set_wstate_def reject_def)
  next
    case False
    with c EvWriteError show ?thesis by (auto simp add: on_write_error_def)
  qed
qed (auto simp: counted_def handler_defs Let_def split: option.splits)

lemma run_counted: "counted s \<Longrightarrow> counted (run cfg es s)"
  by (induction es rule: rev_induct) (simp_all add: deliver_def step_counted)

lemma parseMultipart_counted: "counted (parseMultipart rq)"
  by (simp add: counted_def parseMultipart_def new_session_def unflushed_def split: option.splits)

lemma step_resolves:
  "promise s = Pending \<Longrightarrow> promise (step cfg e s) = Resolved r \<Longrightarrow>
     finished (step cfg e s) \<and> pendingFiles (step cfg e s) = 0"
  by (cases e) (auto simp: handler_defs Let_def split: if_splits option.splits)

text \<open>
  C3. In every run of a \<^verbatim>\<open>parseMultipart\<close> call, the callback that takes the promise from
  pending to resolved leaves the tokenizer's finished flag set and the pending counter at
  zero, and at that moment every write stream the call has opened has emitted
  \<^verbatim>\<open>'finish'\<close>: none is open, ending, destroyed or failed. The run is arbitrary, so this
  holds whichever of the tokenizer's \<^verbatim>\<open>'finish'\<close> and the last flush comes first.
\<close>

theorem resolves_only_when_finished_and_flushed:
  assumes "promise (run cfg es (parseMultipart rq)) = Pending"
    and "promise (step cfg e (run cfg es (parseMultipart rq))) = Resolved r"
  shows "finished (step cfg e (run cfg es (parseMultipart rq)))
       \<and> pendingFiles (step cfg e (run cfg es (parseMultipart rq))) = 0
       \<and> (\<forall>w \<in> set (writes (step cfg e (run cfg es (parseMultipart rq)))). w_state w = WFinished)"
proof -
  let ?s = "run cfg es (parseMultipart rq)"
  have c: "counted (step cfg e ?s)"
    by (intro step_counted run_counted parseMultipart_counted)
  from step_resolves [OF assms]
  have f: "finished (step cfg e ?s)" and p: "pendingFiles (step cfg e ?s) = 0" by simp_all
  from c p have "unflushed (writes (step cfg e ?s)) = 0" by (simp add: counted_def)
  then have "\<forall>w \<in> set (writes (step cfg e ?s)). w_state w = WFinished"
    using unflushed_zero by blast
  with f p show ?thesis by simp
qed

theorem resolves_only_when_finished_and_flushed_witness:
  "promise (run cfg0 (small_file @ [EvFinish]) (parseMultipart req0)) = Pending
   \<and> promise (step cfg0 (EvWriteFinish 0) (run cfg0 (small_file @ [EvFinish]) (parseMultipart req0)))
       = Resolved small_result
   \<and> finished (step cfg0 (EvWriteFinish 0) (run cfg0 (small_file @ [EvFinish]) (parseMultipart req0)))
   \<and> list_all (\<lambda>w. w_state w = WFinished)
       (writes (step cfg0 (EvWriteFinish 0) (run cfg0 (small_file @ [EvFinish]) (parseMultipart req0))))
   \<and> promise (run cfg0 (small_file @ [EvWriteFinish 0]) (parseMultipart req0)) = Pending
   \<and> promise (step cfg0 EvFinish (run cfg0 (small_file @ [EvWriteFinish 0]) (parseMultipart req0)))
       = Resolved small_result
   \<and> pendingFiles (step cfg0 EvFinish (run cfg0 (small_file @ [EvWriteFinish 0]) (parseMultipart req0))) = 0"
proof -
  have a1: "promise (run cfg0 (small_file @ [EvFinish]) (parseMultipart req0)) = Pending"
    by code_simp
  have a2: "promise (step cfg0 (EvWriteFinish 0)
              (run cfg0 (small_file @ [EvFinish]) (parseMultipart req0))) = Resolved small_result"
    by code_simp
  have b1: "promise (run cfg0 (small_file @ [EvWriteFinish 0]) (parseMultipart req0)) = Pending"
    by code_simp
  have b2: "promise (step cfg0 EvFinish
              (run cfg0 (small_file @ [EvWriteFinish 0]) (parseMultipart req0))) = Resolved small_result"
    by code_simp
  show ?thesis
    using resolves_only_when_finished_and_flushed [OF a1 a2]
      resolves_only_when_finished_and_flushed [OF b1 b2] a1 a2 b1 b2
    by (simp add: list_all_iff)
qed

subsection \<open>The content type\<close>

text \<open>
  C4, the claim as stated, at the header \<^verbatim>\<open>application/json; note=multipart/form-data\<close>:
  it declares \<^verbatim>\<open>application/json\<close>, not \<^verbatim>\<open>multipart/form-data\<close>, yet it passes the
  guard, which is a substring test. The call goes on to the tokenizer's constructor and is
  rejected with the constructor's error, not with \<^verbatim>\<open>InvalidMultipartContentType\<close>; with a
  constructor that accepted the header the call would stay pending and a file part would
  create a temp file.
\<close>

theorem declared_type_is_not_tested_counterexample:
  "declared_type ''application/json; note=multipart/form-data'' = ''application/json''
   \<and> content_type req_note = Some ''application/json; note=multipart/form-data''
   \<and> is_multipart req_note
   \<and> promise (parseMultipart req_note)
       = Rejected (Underlying
           ''Unsupported content type: application/json; note=multipart/form-data'')
   \<and> promise (parseMultipart req_note) \<noteq> Rejected InvalidMultipartContentType
   \<and> content_type req_note_accepted = Some ''application/json; note=multipart/form-data''
   \<and> promise (parseMultipart req_note_accepted) = Pending
   \<and> fs (req (run cfg0 [EvFile ''file'' info0 ''1_a''] (parseMultipart req_note_accepted)))
        ''/tmp/upload_1_a'' = Some []"
  by code_simp

text \<open>
  C4, amended. If the content-type header is missing or does not contain the text
  \<^verbatim>\<open>multipart/form-data\<close>, \<^verbatim>\<open>parseMultipart\<close> rejects with
  \<^verbatim>\<open>InvalidMultipartContentType\<close>. No tokenizer is created, so no callback ever runs in
  that call (in either file's version of the listeners): no write stream is opened, no
  temp path is allocated, and the request, with its file system and directories, is as it
  was before the call.
\<close>

theorem parseMultipart_invalid_content_type:
  assumes "\<not> is_multipart rq"
  shows "promise (parseMultipart rq) = Rejected InvalidMultipartContentType
       \<and> \<not> bb (parseMultipart rq)
       \<and> writes (parseMultipart rq) = [] \<and> tempFiles (parseMultipart rq) = []
       \<and> req (parseMultipart rq) = rq
       \<and> run cfg es (parseMultipart rq) = parseMultipart rq
       \<and> run_p6 cfg es (parseMultipart rq) = parseMultipart rq"
proof -
  have nb: "\<not> bb (parseMultipart rq)"
    using assms by (simp add: parseMultipart_def new_session_def)
  show ?thesis
    using assms run_no_tokenizer [OF nb] run_p6_no_tokenizer [OF nb]
    by (simp add: parseMultipart_def new_session_def)
qed

theorem parseMultipart_invalid_content_type_witness:
  "\<not> is_multipart req_json
   \<and> promise (parseMultipart req_json) = Rejected InvalidMultipartContentType
   \<and> req (run cfg0 (small_file @ [EvFinish, EvWriteFinish 0]) (parseMultipart req_json)) = req_json
   \<and> fs (req (run_p6 cfg0 (small_file @ [EvFinish, EvWriteFinish 0]) (parseMultipart req_json)))
        ''/tmp/upload_1_a'' = None"
proof -
  have h: "\<not> is_multipart req_json"
    by code_simp
  have e: "fs req_json ''/tmp/upload_1_a'' = None"
    by (simp add: req_json_def)
  show ?thesis
    using parseMultipart_invalid_content_type
            [OF h, of cfg0 "small_file @ [EvFinish, EvWriteFinish 0]"] h e
    by simp
qed

subsection \<open>The file size limit\<close>

text \<open>
  C1. \<^verbatim>\<open>index.js\<close> at the input of the repository's test \<^verbatim>\<open>should handle file size limit\<close>
  (a 200-byte file under \<^verbatim>\<open>limits.fileSize = 100\<close>): the file stream's \<^verbatim>\<open>'limit'\<close> event has
  no listener, the write stream finishes on the truncated data, and the promise resolves
  with a result that holds a descriptor of the 100-byte temp file. The claim requires a
  rejection with \<^verbatim>\<open>FileSizeLimit\<close> and no result.
\<close>

theorem parseMultipart_oversized_file_resolves:
  "promise (run cfg0 big_file (parseMultipart req0)) = Resolved small_result
   \<and> kMultipart (req (run cfg0 big_file (parseMultipart req0))) = Some small_result
   \<and> get_size (fs (req (run cfg0 big_file (parseMultipart req0)))) fo1 = 100
   \<and> map w_state (writes (run cfg0 big_file (parseMultipart req0))) = [WFinished]"
  by code_simp

text \<open>In no run does \<^verbatim>\<open>index.js\<close> reject with \<^verbatim>\<open>FileSizeLimit\<close>: the error is created
  nowhere in its \<^verbatim>\<open>parseMultipart\<close>.\<close>

lemma step_no_size_rejection:
  "\<not> is_size_rejection (promise s) \<Longrightarrow> \<not> is_size_rejection (promise (step cfg e s))"
  by (cases e) (auto simp: handler_defs Let_def is_size_rejection_def split: option.splits)

lemma parseMultipart_never_rejects_for_size:
  "\<not> is_size_rejection (promise (run cfg es (parseMultipart rq)))"
proof (induction es rule: rev_induct)
  case Nil
  show ?case
    by (simp add: parseMultipart_def new_session_def is_size_rejection_def split: option.splits)
next
  case (snoc e es)
  then show ?case by (simp add: deliver_def step_no_size_rejection)
qed

text \<open>The second file at the same input: its \<^verbatim>\<open>'limit'\<close> listener destroys the write
  stream before the data reaches it and rejects, and no result is stored. The temp file,
  created empty, stays on disk and the tracked-paths slot stays \<^verbatim>\<open>null\<close>. The error has the
  status and the message that the test looks for.\<close>

lemma parseMultipart_p6_oversized_file_rejects:
  "promise (run_p6 cfg0 big_file (parseMultipart req0))
     = Rejected (FileSizeLimit ''File size exceeds limit of 100 bytes'')
   \<and> kMultipart (req (run_p6 cfg0 big_file (parseMultipart req0))) = None
   \<and> kTempFiles (req (run_p6 cfg0 big_file (parseMultipart req0))) = None
   \<and> fs (req (run_p6 cfg0 big_file (parseMultipart req0))) ''/tmp/upload_1_a'' = Some []
   \<and> map w_state (writes (run_p6 cfg0 big_file (parseMultipart req0))) = [WDestroyed]"
  by code_simp

lemma size_rejection_matches_test:
  "statusCode (FileSizeLimit a) = Some 413
   \<and> str_includes (message (FileSizeLimit a)) ''File size limit exceeded''"
  by simp

text \<open>In general, in the second file: when a file stream whose write is in progress
  signals \<^verbatim>\<open>'limit'\<close> while the promise is pending, the promise is rejected with
  \<^verbatim>\<open>FileSizeLimit\<close>, the write stream is destroyed, and whatever callbacks follow, the
  promise stays rejected and no result is stored: the destroyed stream never emits
  \<^verbatim>\<open>'finish'\<close>, so the pending counter never returns to zero.\<close>

lemma run_p6_Nil [simp]: "run_p6 cfg [] s = s"
  by (simp add: run_p6_def)

lemma run_p6_snoc [simp]: "run_p6 cfg (es @ [e]) s = deliver_p6 cfg (run_p6 cfg es s) e"
  by (simp add: run_p6_def)

lemma run_p6_append: "run_p6 cfg (es @ es') s = run_p6 cfg es' (run_p6 cfg es s)"
  by (simp add: run_p6_def)

lemma run_p6_Cons: "run_p6 cfg (e # es) s = run_p6 cfg es (deliver_p6 cfg s e)"
  by (simp add: run_p6_def)

lemma step_p6_bb: "bb (step_p6 cfg e s) = bb s"
  by (cases e)
    (auto simp: handler_defs on_file_limit_p6_def destroy_write_def on_error_p6_def Let_def
       split: option.splits)

lemma run_p6_bb: "bb (run_p6 cfg es s) = bb s"
  by (induction es rule: rev_induct) (simp_all add: deliver_p6_def step_p6_bb)

lemma step_p6_counted: "counted s \<Longrightarrow> counted (step_p6 cfg e s)"
proof (cases e)
  case (EvFileLimit i)
  assume c: "counted s"
  show ?thesis
  proof (cases "i < length (writes s)
                 \<and> (w_state (writes s ! i) = WOpen \<or> w_state (writes s ! i) = WEnding)")
    case True
    then have "unflushed ((writes s)[i := (writes s ! i)\<lparr>w_state := WDestroyed\<rparr>]) = unflushed (writes s)"
      using unflushed_update [of i "writes s" "(writes s ! i)\<lparr>w_state := WDestroyed\<rparr>"] by auto
    with c True EvFileLimit show ?thesis
      by (auto simp add: counted_def on_file_limit_p6_def destroy_write_def set_wstate_def reject_def)
  next
    case False
    with c EvFileLimit show ?thesis
      by (auto simp add: counted_def on_file_limit_p6_def destroy_write_def reject_def)
  qed
next
  case (EvError m)
  assume "counted s"
  with EvError show ?thesis by (simp add: counted_def on_error_p6_def reject_def)
qed (use step_counted [of s cfg e] in auto)

lemma run_p6_counted: "counted s \<Longrightarrow> counted (run_p6 cfg es s)"
  by (induction es rule: rev_induct) (simp_all add: deliver_p6_def step_p6_counted)

lemma list_ex_update:
  "list_ex P xs \<Longrightarrow> \<not> P (xs ! i) \<Longrightarrow> list_ex P (xs[i := y])"
proof (induction xs arbitrary: i)
  case Nil
  then show ?case by simp
next
  case (Cons x xs)
  then show ?case by (cases i) auto
qed

lemma step_p6_has_destroyed: "has_destroyed s \<Longrightarrow> has_destroyed (step_p6 cfg e s)"
  by (cases e)
    (auto simp: has_destroyed_def handler_defs on_file_limit_p6_def destroy_write_def
       on_error_p6_def Let_def intro!: list_ex_update split: option.splits)

lemma destroyed_pending:
  assumes "counted s" "has_destroyed s"
  shows "pendingFiles s \<noteq> 0"
proof -
  from assms(2) obtain w where "w \<in> set (writes s)" "w_state w = WDestroyed"
    by (auto simp: has_destroyed_def list_ex_iff)
  then have "w \<in> set (filter (\<lambda>w. w_state w \<noteq> WFinished) (writes s))"
    by simp
  then have "unflushed (writes s) \<noteq> 0"
    unfolding unflushed_def by (metis length_0_conv empty_iff list.set(1))
  with assms(1) show ?thesis by (simp add: counted_def)
qed

lemma step_p6_no_completion:
  "pendingFiles (step_p6 cfg e s) \<noteq> 0 \<Longrightarrow>
     kMultipart (req (step_p6 cfg e s)) = kMultipart (req s)
     \<and> kTempFiles (req (step_p6 cfg e s)) = kTempFiles (req s)
     \<and> (promise s = Rejected x \<longrightarrow> promise (step_p6 cfg e s) = Rejected x)"
  by (cases e)
    (auto simp: handler_defs on_file_limit_p6_def destroy_write_def on_error_p6_def Let_def
       split: option.splits if_splits)

lemma run_p6_after_destroy:
  assumes "counted s" "has_destroyed s" "promise s = Rejected x"
  shows "counted (run_p6 cfg es s) \<and> has_destroyed (run_p6 cfg es s)
       \<and> promise (run_p6 cfg es s) = Rejected x
       \<and> kMultipart (req (run_p6 cfg es s)) = kMultipart (req s)
       \<and> kTempFiles (req (run_p6 cfg es s)) = kTempFiles (req s)"
proof (induction es rule: rev_induct)
  case Nil
  from assms show ?case by simp
next
  case (snoc e es)
  let ?s = "run_p6 cfg es s"
  show ?case
  proof (cases "bb ?s")
    case True
    from snoc have c: "counted (step_p6 cfg e ?s)" and d: "has_destroyed (step_p6 cfg e ?s)"
      by (simp_all add: step_p6_counted step_p6_has_destroyed)
    from step_p6_no_completion [OF destroyed_pending [OF c d]] snoc c d True
    show ?thesis by (simp add: deliver_p6_def)
  next
    case False
    with snoc show ?thesis by (simp add: deliver_p6_def)
  qed
qed

lemma limit_p6_rejects_for_good:
  assumes "promise (run_p6 cfg es (parseMultipart rq)) = Pending"
    and "i < length (writes (run_p6 cfg es (parseMultipart rq)))"
    and "w_state (writes (run_p6 cfg es (parseMultipart rq)) ! i) = WOpen
         \<or> w_state (writes (run_p6 cfg es (parseMultipart rq)) ! i) = WEnding"
  shows "promise (run_p6 cfg (es @ EvFileLimit i # es') (parseMultipart rq))
           = Rejected (FileSizeLimit (''File size exceeds limit of ''
                                      @ show_nat (limits_fileSize cfg) @ '' bytes''))
       \<and> has_destroyed (run_p6 cfg (es @ EvFileLimit i # es') (parseMultipart rq))
       \<and> kMultipart (req (run_p6 cfg (es @ EvFileLimit i # es') (parseMultipart rq)))
           = kMultipart (req (run_p6 cfg es (parseMultipart rq)))
       \<and> kTempFiles (req (run_p6 cfg (es @ EvFileLimit i # es') (parseMultipart rq)))
           = kTempFiles (req (run_p6 cfg es (parseMultipart rq)))"
proof -
  let ?s = "run_p6 cfg es (parseMultipart rq)"
  let ?e = "FileSizeLimit (''File size exceeds limit of '' @ show_nat (limits_fileSize cfg) @ '' bytes'')"
  let ?s1 = "step_p6 cfg (EvFileLimit i) ?s"
  have b: "bb ?s"
  proof (rule ccontr)
    assume "\<not> bb ?s"
    then have "\<not> bb (parseMultipart rq)" by (simp add: run_p6_bb)
    then have "?s = parseMultipart rq" by (rule run_p6_no_tokenizer)
    with assms(2) show False
      by (simp add: parseMultipart_def new_session_def split: if_splits option.splits)
  qed
  have c: "counted ?s1"
    by (intro step_p6_counted run_p6_counted parseMultipart_counted)
  have p: "promise ?s1 = Rejected ?e"
    using assms by (auto simp: on_file_limit_p6_def destroy_write_def reject_def set_wstate_def)
  have d: "has_destroyed ?s1"
    using assms(2,3)
    by (auto simp: has_destroyed_def on_file_limit_p6_def destroy_write_def reject_def
          set_wstate_def list_ex_iff set_conv_nth nth_list_update intro!: exI [of _ i])
  have k: "kMultipart (req ?s1) = kMultipart (req ?s) \<and> kTempFiles (req ?s1) = kTempFiles (req ?s)"
    by (auto simp: on_file_limit_p6_def destroy_write_def reject_def set_wstate_def)
  have r: "run_p6 cfg (es @ EvFileLimit i # es') (parseMultipart rq) = run_p6 cfg es' ?s1"
    using b by (simp add: run_p6_append run_p6_Cons deliver_p6_def)
  from run_p6_after_destroy [OF c d p, of cfg es'] k show ?thesis
    by (simp add: r)
qed

subsection \<open>Repeated fields\<close>

text \<open>
  C5. \<^verbatim>\<open>index.js\<close> on a body in which the field \<^verbatim>\<open>tag\<close> occurs twice, first with the empty
  value and then with \<^verbatim>\<open>x\<close>: the listener tests \<^verbatim>\<open>fields[fieldname]\<close> for truthiness, the
  empty string is falsy, and the second value replaces the first. The claim requires the
  sequence of both values, as the code produces when the first value is not empty.
\<close>

theorem empty_field_value_is_overwritten:
  "promise (run cfg0 [EvField ''tag'' [], EvField ''tag'' ''x'', EvFinish] (parseMultipart req0))
     = Resolved \<lparr>r_files = [], r_fields = Some [(''tag'', FStr ''x'')], r_tempFiles = []\<rparr>
   \<and> promise (run cfg0 [EvField ''tag'' ''y'', EvField ''tag'' ''x'', EvFinish] (parseMultipart req0))
     = Resolved \<lparr>r_files = [], r_fields = Some [(''tag'', FArr [FStr ''y'', FStr ''x''])],
                 r_tempFiles = []\<rparr>"
  by code_simp

text \<open>The same test lets a name that \<^verbatim>\<open>Object.prototype\<close> defines find the inherited
  member: a field \<^verbatim>\<open>toString\<close> submitted once is stored as an array of that member and
  the value.\<close>

lemma inherited_name_becomes_array:
  "promise (run cfg0 [EvField ''toString'' ''x'', EvFinish] (parseMultipart req0))
     = Resolved \<lparr>r_files = [],
                 r_fields = Some [(''toString'', FArr [FInherited ''toString'', FStr ''x''])],
                 r_tempFiles = []\<rparr>"
  by code_simp

text \<open>Where every value is non-empty and no name is a member of \<^verbatim>\<open>Object.prototype\<close>
  (or \<^verbatim>\<open>__proto__\<close>), the listener does what the claim says: a name submitted once maps
  to its string, a name submitted several times to the array of its values in order.\<close>

lemma map_of_set_prop: "map_of (set_prop obj k v) = (map_of obj)(k \<mapsto> v)"
  by (induction obj) auto

lemma collected_snoc:
  "v \<noteq> [] \<Longrightarrow> \<forall>x \<in> set vs. x \<noteq> [] \<Longrightarrow>
     collected (vs @ [v]) =
       Some (if truthy (collected vs) then push_value (the (collected vs)) v else FStr v)"
  by (cases vs rule: collected.cases) auto

lemma truthy_collected: "\<forall>x \<in> set vs. x \<noteq> [] \<Longrightarrow> truthy (collected vs) = (vs \<noteq> [])"
  by (cases vs rule: collected.cases) auto

lemma fields_accumulate:
  assumes "\<forall>kv \<in> set kvs. snd kv \<noteq> [] \<and> fst kv \<notin> set object_prototype_keys"
  shows "map_of (on_fields kvs) k = collected (values_for k kvs)"
  using assms
proof (induction kvs arbitrary: k rule: rev_induct)
  case Nil
  then show ?case by (simp add: on_fields_def values_for_def)
next
  case (snoc kv kvs)
  obtain k' v' where kv: "kv = (k', v')" by (cases kv)
  from snoc.prems kv have v: "v' \<noteq> []" and nk: "k' \<notin> set object_prototype_keys"
    and rest: "\<forall>kv \<in> set kvs. snd kv \<noteq> [] \<and> fst kv \<notin> set object_prototype_keys"
    by auto
  have ih: "map_of (on_fields kvs) k = collected (values_for k kvs)" for k
    by (rule snoc.IH [OF rest])
  have ne: "\<forall>x \<in> set (values_for k' kvs). x \<noteq> []"
    using rest by (auto simp: values_for_def)
  have g: "get_prop (on_fields kvs) k' = collected (values_for k' kvs)"
    using nk ih [of k'] by (simp add: get_prop_def split: option.splits)
  have s: "on_fields (kvs @ [kv]) = on_field_obj k' v' (on_fields kvs)"
    by (simp add: on_fields_def kv)
  show ?case
  proof (cases "k = k'")
    case True
    have "values_for k' (kvs @ [kv]) = values_for k' kvs @ [v']"
      by (simp add: values_for_def kv)
    with collected_snoc [OF v ne] g True show ?thesis
      by (simp add: s on_field_obj_def map_of_set_prop)
  next
    case False
    then have "values_for k (kvs @ [kv]) = values_for k kvs"
      by (simp add: values_for_def kv)
    with False ih [of k] show ?thesis
      by (simp add: s on_field_obj_def map_of_set_prop)
  qed
qed

lemma run_field_events:
  assumes "\<forall>kv \<in> set kvs. fst kv \<noteq> ''__proto__''" "bb s" "form_fields s = Some obj"
  shows "bb (run cfg (field_events kvs) s)
       \<and> form_fields (run cfg (field_events kvs) s)
           = Some (foldl (\<lambda>obj kv. on_field_obj (fst kv) (snd kv) obj) obj kvs)"
  using assms(1)
proof (induction kvs rule: rev_induct)
  case Nil
  from assms(2,3) show ?case by (simp add: field_events_def)
next
  case (snoc kv kvs)
  then show ?case
    by (simp add: field_events_def deliver_def on_field_def)
qed

lemma fields_accumulate_in_parse:
  assumes "is_multipart rq" "bb_throws rq = None"
    and "\<forall>kv \<in> set kvs. snd kv \<noteq> [] \<and> fst kv \<notin> set object_prototype_keys
                        \<and> fst kv \<noteq> ''__proto__''"
  shows "\<exists>obj. form_fields (run cfg (field_events kvs) (parseMultipart rq)) = Some obj
           \<and> (\<forall>k. map_of obj k = collected (values_for k kvs))"
proof -
  have s: "bb (parseMultipart rq)" "form_fields (parseMultipart rq) = Some []"
    using assms(1,2) by (simp_all add: parseMultipart_fresh new_session_def)
  from assms(3) have "\<forall>kv \<in> set kvs. fst kv \<noteq> ''__proto__''" by blast
  from run_field_events [OF this s]
  have "form_fields (run cfg (field_events kvs) (parseMultipart rq)) = Some (on_fields kvs)"
    by (simp add: on_fields_def)
  moreover from assms(3) have "map_of (on_fields kvs) k = collected (values_for k kvs)" for k
    by (intro fields_accumulate) blast
  ultimately show ?thesis by blast
qed

subsection \<open>A second call of \<^verbatim>\<open>parseMultipart\<close>\<close>

text \<open>
  C2, the claim as stated, at a request with one field: after the first call has resolved
  and its result is stored on the request, a second call returns a promise that is
  pending, not the stored result, and it has piped the body stream a second time; the
  tokenizer's error on the exhausted stream then rejects it.
\<close>

theorem second_parse_counterexample:
  "promise (run cfg0 [EvField ''name'' ''John'', EvFinish] (parseMultipart req0))
     = Resolved john_result
   \<and> kMultipart (req (run cfg0 [EvField ''name'' ''John'', EvFinish] (parseMultipart req0)))
       = Some john_result
   \<and> piped (req (run cfg0 [EvField ''name'' ''John'', EvFinish] (parseMultipart req0))) = 1
   \<and> promise (parseMultipart
        (req (run cfg0 [EvField ''name'' ''John'', EvFinish] (parseMultipart req0))))
       \<noteq> Resolved john_result
   \<and> piped (req (parseMultipart
        (req (run cfg0 [EvField ''name'' ''John'', EvFinish] (parseMultipart req0))))) = 2
   \<and> promise (run cfg0 [EvError ''Unexpected end of form'']
        (parseMultipart (req (run cfg0 [EvField ''name'' ''John'', EvFinish] (parseMultipart req0)))))
       = Rejected (Underlying ''Unexpected end of form'')"
  by code_simp

text \<open>
  C2, amended. When a call of \<^verbatim>\<open>parseMultipart\<close> resolves with a result, that result is
  stored on the request scope, where the second file's \<^verbatim>\<open>files()\<close> reads it without
  touching the body stream. A second call of \<^verbatim>\<open>parseMultipart\<close> on that request does not
  return it: it starts a new tokenizer with empty accumulators and a pending promise, and
  pipes the body stream once more. The stored result stays on the request.
\<close>

theorem second_parse_starts_afresh:
  assumes "promise (run cfg es (parseMultipart rq)) = Pending"
    and "promise (step cfg e (run cfg es (parseMultipart rq))) = Resolved r"
  shows "kMultipart (req (step cfg e (run cfg es (parseMultipart rq)))) = Some r
       \<and> files_p6 (req (step cfg e (run cfg es (parseMultipart rq)))) = Inr (r_files r)
       \<and> promise (parseMultipart (req (step cfg e (run cfg es (parseMultipart rq))))) = Pending
       \<and> files (parseMultipart (req (step cfg e (run cfg es (parseMultipart rq))))) = []
       \<and> form_fields (parseMultipart (req (step cfg e (run cfg es (parseMultipart rq))))) = Some []
       \<and> piped (req (parseMultipart (req (step cfg e (run cfg es (parseMultipart rq))))))
           = piped (req (step cfg e (run cfg es (parseMultipart rq)))) + 1
       \<and> kMultipart (req (parseMultipart (req (step cfg e (run cfg es (parseMultipart rq))))))
           = Some r"
proof -
  let ?s = "run cfg es (parseMultipart rq)"
  let ?rq1 = "req (step cfg e ?s)"
  from run_pending_start [OF assms(1)] have "promise (parseMultipart rq) = Pending" .
  then have m: "is_multipart rq" and t: "bb_throws rq = None"
    by (simp_all add: parseMultipart_pending)
  have "content_type ?rq1 = content_type rq \<and> bb_throws ?rq1 = bb_throws rq"
    using step_headers [of cfg e ?s] run_headers [of cfg es "parseMultipart rq"] m t
    by (simp add: parseMultipart_fresh new_session_def)
  with m t have m1: "is_multipart ?rq1" and t1: "bb_throws ?rq1 = None"
    by (simp_all add: is_multipart_def)
  have k: "kMultipart ?rq1 = Some r"
    by (rule step_resolves_stores [OF assms])
  show ?thesis
    using k by (simp add: parseMultipart_fresh [OF m1 t1] new_session_def files_p6_def)
qed

theorem second_parse_starts_afresh_witness:
  "promise (run cfg0 [EvField ''name'' ''John''] (parseMultipart req0)) = Pending
   \<and> promise (step cfg0 EvFinish (run cfg0 [EvField ''name'' ''John''] (parseMultipart req0)))
       = Resolved john_result
   \<and> kMultipart (req (step cfg0 EvFinish
        (run cfg0 [EvField ''name'' ''John''] (parseMultipart req0)))) = Some john_result
   \<and> promise (parseMultipart (req (step cfg0 EvFinish
        (run cfg0 [EvField ''name'' ''John''] (parseMultipart req0))))) = Pending
   \<and> piped (req (parseMultipart (req (step cfg0 EvFinish
        (run cfg0 [EvField ''name'' ''John''] (parseMultipart req0)))))) = 2"
proof -
  have h1: "promise (run cfg0 [EvField ''name'' ''John''] (parseMultipart req0)) = Pending"
    by code_simp
  have h2: "promise (step cfg0 EvFinish (run cfg0 [EvField ''name'' ''John''] (parseMultipart req0)))
              = Resolved john_result"
    by code_simp
  have p: "piped (req (step cfg0 EvFinish
             (run cfg0 [EvField ''name'' ''John''] (parseMultipart req0)))) = 1"
    by code_simp
  show ?thesis
    using second_parse_starts_afresh [OF h1 h2] h1 h2 p by simp
qed

section \<open>Properties of the file descriptor and of cleanup\<close>

text \<open>
  C8. The \<^verbatim>\<open>size\<close> getter of a file descriptor is a function of the file system at the
  time of the call and of the descriptor's temp path, nothing is stored: it is the length
  of the file now at that path, it is 0 (and no error) when no file is at that path, it
  is 0 once the file has been unlinked, and it follows a later write to the path.
\<close>

theorem size_is_live:
  "(f (tempPath fo) = Some b \<longrightarrow> get_size f fo = length b)
   \<and> (f (tempPath fo) = None \<longrightarrow> get_size f fo = 0)
   \<and> get_size (unlink_catch f (tempPath fo)) fo = 0
   \<and> (f (tempPath fo) = Some b \<longrightarrow>
        get_size (f(tempPath fo \<mapsto> b @ chunk)) fo = length b + length chunk)"
  by (auto simp: get_size_def statSync_size_def unlink_catch_def unlink_def split: option.splits)

theorem size_is_live_witness:
  "disk1 (tempPath fo1) = Some [72, 105]
   \<and> get_size disk1 fo1 = 2
   \<and> get_size (disk1(tempPath fo1 \<mapsto> [72, 105] @ [33])) fo1 = 3
   \<and> Map.empty (tempPath fo1) = (None :: bytes option)
   \<and> get_size Map.empty fo1 = 0
   \<and> get_size (unlink_catch disk1 (tempPath fo1)) fo1 = 0"
proof -
  have h: "disk1 (tempPath fo1) = Some [72, 105]"
    by (simp add: disk1_def fo1_def)
  show ?thesis
    using size_is_live [of disk1 fo1 "[72, 105]" "[33]"] size_is_live [of Map.empty fo1] h
    by simp
qed

text \<open>
  C10, the claim as stated, at a body of two fields under \<^verbatim>\<open>limits.fields = 1\<close>: the
  promise is rejected with \<^verbatim>\<open>FieldsLimit\<close> and is at no moment resolved, but the tokenizer
  still finishes, and its \<^verbatim>\<open>'finish'\<close> listener, with nothing pending, stores the result and
  the (empty) tracked paths on the request. \<^verbatim>\<open>cleanupTempFiles()\<close> then maps over the empty
  array and does not raise.
\<close>

theorem cleanup_after_limit_rejection_counterexample:
  "promise (run cfg0 (take 1 two_fields) (parseMultipart req0)) = Pending
   \<and> promise (run cfg0 (take 2 two_fields) (parseMultipart req0)) = Rejected FieldsLimit
   \<and> promise (run cfg0 two_fields (parseMultipart req0)) = Rejected FieldsLimit
   \<and> kTempFiles (req (run cfg0 two_fields (parseMultipart req0))) = Some []
   \<and> \<not> isl (cleanupTempFiles None (req (run cfg0 two_fields (parseMultipart req0))))"
  by code_simp

text \<open>
  C10, amended. On a request whose tracked-paths slot still has its initial value \<^verbatim>\<open>null\<close>,
  \<^verbatim>\<open>cleanupTempFiles()\<close> without an argument raises a \<^verbatim>\<open>TypeError\<close> (the rejection of the
  async function) instead of doing nothing. That is the case before any call of
  \<^verbatim>\<open>parseMultipart\<close>, at every moment of a \<^verbatim>\<open>parseMultipart\<close> call whose promise is still
  pending, and after a call that was rejected for its content type. On a request that
  starts with both slots \<^verbatim>\<open>null\<close>, the call raises exactly as long as no parse has stored
  its result.
\<close>

theorem cleanupTempFiles_null_throws:
  assumes "kTempFiles rq = None"
  shows "cleanupTempFiles None rq = Inl TypeError
       \<and> (promise (run cfg es (parseMultipart rq)) = Pending \<longrightarrow>
            cleanupTempFiles None (req (run cfg es (parseMultipart rq))) = Inl TypeError)
       \<and> (\<not> is_multipart rq \<longrightarrow>
            cleanupTempFiles None (req (run cfg es (parseMultipart rq))) = Inl TypeError)
       \<and> (kMultipart rq = None \<longrightarrow>
            (cleanupTempFiles None (req (run cfg es (parseMultipart rq))) = Inl TypeError)
              = (kMultipart (req (run cfg es (parseMultipart rq))) = None))"
proof -
  have t: "(cleanupTempFiles None x = Inl TypeError) = (kTempFiles x = None)" for x
    by (simp add: cleanupTempFiles_def split: option.splits)
  have a: "cleanupTempFiles None rq = Inl TypeError"
    using assms by (simp add: t)
  have k0: "kTempFiles (req (parseMultipart rq)) = None"
    using assms by (simp add: parseMultipart_def new_session_def split: option.splits)
  have b: "cleanupTempFiles None (req (run cfg es (parseMultipart rq))) = Inl TypeError"
    if "promise (run cfg es (parseMultipart rq)) = Pending"
    using run_pending_slots [OF that] k0 by (simp add: t)
  have c: "cleanupTempFiles None (req (run cfg es (parseMultipart rq))) = Inl TypeError"
    if "\<not> is_multipart rq"
  proof -
    from that have "\<not> bb (parseMultipart rq)"
      by (simp add: parseMultipart_def new_session_def)
    then have "run cfg es (parseMultipart rq) = parseMultipart rq"
      by (rule run_no_tokenizer)
    with k0 show ?thesis by (simp add: t)
  qed
  have d: "(cleanupTempFiles None (req (run cfg es (parseMultipart rq))) = Inl TypeError)
             = (kMultipart (req (run cfg es (parseMultipart rq))) = None)"
    if "kMultipart rq = None"
  proof -
    from that have "kMultipart (req (parseMultipart rq)) = None"
      by (simp add: parseMultipart_def new_session_def split: option.splits)
    with k0 have "(kTempFiles (req (parseMultipart rq)) = None)
                    = (kMultipart (req (parseMultipart rq)) = None)"
      by simp
    from run_slots [OF this] show ?thesis by (simp add: t)
  qed
  from a b c d show ?thesis by blast
qed

theorem cleanupTempFiles_null_throws_witness:
  "kTempFiles req0 = None
   \<and> cleanupTempFiles None req0 = Inl TypeError
   \<and> promise (run cfg0 small_file (parseMultipart req0)) = Pending
   \<and> cleanupTempFiles None (req (run cfg0 small_file (parseMultipart req0))) = Inl TypeError
   \<and> kTempFiles req_json = None
   \<and> \<not> is_multipart req_json
   \<and> cleanupTempFiles None (req (run cfg0 small_file (parseMultipart req_json))) = Inl TypeError
   \<and> kMultipart req0 = None
   \<and> kMultipart (req (run cfg0 (small_file @ [EvFinish, EvWriteFinish 0]) (parseMultipart req0)))
       = Some small_result
   \<and> cleanupTempFiles None
        (req (run cfg0 (small_file @ [EvFinish, EvWriteFinish 0]) (parseMultipart req0)))
       \<noteq> Inl TypeError"
proof -
  have k: "kTempFiles req0 = None" and kj: "kTempFiles req_json = None"
    and m: "kMultipart req0 = None"
    by (simp_all add: req0_def req_json_def)
  have p: "promise (run cfg0 small_file (parseMultipart req0)) = Pending"
    by code_simp
  have j: "\<not> is_multipart req_json"
    by code_simp
  have r: "kMultipart (req (run cfg0 (small_file @ [EvFinish, EvWriteFinish 0])
             (parseMultipart req0))) = Some small_result"
    by code_simp
  show ?thesis
    using cleanupTempFiles_null_throws [OF k, of cfg0 small_file]
      cleanupTempFiles_null_throws [OF k, of cfg0 "small_file @ [EvFinish, EvWriteFinish 0]"]
      cleanupTempFiles_null_throws [OF kj, of cfg0 small_file] k kj m p j r
    by simp
qed

lemma foldl_unlink_catch:
  "foldl unlink_catch f ps = (\<lambda>p. if p \<in> set ps then None else f p)"
proof (induction ps arbitrary: f)
  case Nil
  then show ?case by simp
next
  case (Cons q qs)
  have "unlink_catch f q = f(q := None)"
    by (auto simp: unlink_catch_def unlink_def split: option.splits)
  with Cons show ?case by auto
qed

text \<open>
  C6, the claim as stated, at a request whose parse was rejected for a tokenizer error
  after its file had been written: the tracked-paths slot is still \<^verbatim>\<open>null\<close>, so
  \<^verbatim>\<open>cleanupTempFiles()\<close> raises a \<^verbatim>\<open>TypeError\<close>; the \<^verbatim>\<open>onResponse\<close> hook does nothing, and
  the temp file of the request is still on disk afterwards.
\<close>

theorem cleanup_after_aborted_parse_counterexample:
  "kTempFiles aborted_req = None
   \<and> fs aborted_req ''/tmp/upload_1_a'' = Some [72, 105]
   \<and> isl (cleanupTempFiles None aborted_req)
   \<and> projl (cleanupTempFiles None aborted_req) = TypeError
   \<and> \<not> isl (onResponse aborted_req)
   \<and> fs (projr (onResponse aborted_req)) ''/tmp/upload_1_a'' = Some [72, 105]"
  by code_simp

text \<open>
  C6, amended. On a request whose tracked paths are set (a parse has completed),
  \<^verbatim>\<open>cleanupTempFiles()\<close> raises no error and leaves none of the tracked paths on disk; a
  second call, or the \<^verbatim>\<open>onResponse\<close> hook after it, raises no error and changes nothing
  (unlinking a path that is gone is absorbed); and the hook alone has the effect of the
  manual call.
\<close>

theorem cleanup_idempotent_when_tracked:
  assumes "kTempFiles rq = Some ps"
  shows "\<exists>rq1. cleanupTempFiles None rq = Inr rq1
           \<and> cleanupTempFiles None rq1 = Inr rq1
           \<and> onResponse rq1 = Inr rq1
           \<and> onResponse rq = Inr rq1
           \<and> kTempFiles rq1 = Some ps
           \<and> (\<forall>p \<in> set ps. fs rq1 p = None)"
proof -
  let ?rq1 = "rq\<lparr>fs := foldl unlink_catch (fs rq) ps\<rparr>"
  have 1: "cleanupTempFiles None rq = Inr ?rq1"
    using assms by (simp add: cleanupTempFiles_def)
  have i: "foldl unlink_catch (foldl unlink_catch (fs rq) ps) ps = foldl unlink_catch (fs rq) ps"
    by (auto simp: foldl_unlink_catch)
  have 2: "cleanupTempFiles None ?rq1 = Inr ?rq1"
    using assms i by (simp add: cleanupTempFiles_def)
  have e: "?rq1 = rq" if "ps = []"
    using that by simp
  have 3: "onResponse ?rq1 = Inr ?rq1"
    using assms 2 by (simp add: onResponse_def)
  have 4: "onResponse rq = Inr ?rq1"
    using assms 1 e by (cases "ps = []") (simp_all add: onResponse_def)
  have 5: "\<forall>p \<in> set ps. fs ?rq1 p = None"
    by (simp add: foldl_unlink_catch)
  from 1 2 3 4 5 assms show ?thesis by simp
qed

theorem cleanup_idempotent_when_tracked_witness:
  "kTempFiles tracked_req = Some [''/tmp/upload_1_a'']
   \<and> fs tracked_req ''/tmp/upload_1_a'' = Some [72, 105]
   \<and> \<not> isl (cleanupTempFiles None tracked_req)
   \<and> fs (projr (cleanupTempFiles None tracked_req)) ''/tmp/upload_1_a'' = None
   \<and> \<not> isl (cleanupTempFiles None (projr (cleanupTempFiles None tracked_req)))
   \<and> \<not> isl (onResponse (projr (cleanupTempFiles None tracked_req)))
   \<and> fs (projr (onResponse (projr (cleanupTempFiles None tracked_req)))) ''/tmp/upload_1_a'' = None"
proof -
  have k: "kTempFiles tracked_req = Some [''/tmp/upload_1_a'']"
    by code_simp
  have f: "fs tracked_req ''/tmp/upload_1_a'' = Some [72, 105]"
    by code_simp
  from cleanup_idempotent_when_tracked [OF k] obtain rq1 where
    "cleanupTempFiles None tracked_req = Inr rq1" "cleanupTempFiles None rq1 = Inr rq1"
    "onResponse rq1 = Inr rq1" "\<forall>p \<in> set [''/tmp/upload_1_a'']. fs rq1 p = None"
    by blast
  with k f show ?thesis by simp
qed

text \<open>The paths that a completing parse tracks are the paths of all the write streams
  the call has opened, so the cleanup after a resolved parse removes every temp file the
  call has created.\<close>

lemma completed_parse_is_cleaned:
  assumes "promise (run cfg es (parseMultipart rq)) = Pending"
    and "promise (step cfg e (run cfg es (parseMultipart rq))) = Resolved r"
  shows "\<exists>rq1. cleanupTempFiles None (req (step cfg e (run cfg es (parseMultipart rq)))) = Inr rq1
           \<and> (\<forall>w \<in> set (writes (step cfg e (run cfg es (parseMultipart rq)))).
                 fs rq1 (tempPath (w_file w)) = None)"
proof -
  let ?s = "step cfg e (run cfg es (parseMultipart rq))"
  have t: "tempFiles ?s = map (\<lambda>w. tempPath (w_file w)) (writes ?s)"
    by (rule step_tracks [OF run_tracks])
  from step_resolves_tracks [OF assms] have k: "kTempFiles (req ?s) = Some (tempFiles ?s)"
    by simp
  show ?thesis
    using k t by (simp add: cleanupTempFiles_def foldl_unlink_catch)
qed

section \<open>Defaults of the file metadata\<close>

text \<open>
  C9. For a file event whose \<^verbatim>\<open>info\<close> has a falsy (missing or empty) \<^verbatim>\<open>filename\<close>,
  \<^verbatim>\<open>encoding\<close> or \<^verbatim>\<open>mimeType\<close>, the file descriptor that the buffered parse appends when
  the write stream of that file finishes, and the file part that the streaming iterator
  queues (in both files), carry \<^verbatim>\<open>'unnamed'\<close>, \<^verbatim>\<open>'7bit'\<close> and
  \<^verbatim>\<open>'application/octet-stream'\<close> respectively in its place.
\<close>

theorem file_info_defaults:
  "(\<exists>fo. files (step cfg (EvWriteFinish (length (writes s)))
                  (step cfg (EvFileEnd (length (writes s)))
                     (step cfg (EvFile k nfo stamp) s))) = files s @ [fo]
         \<and> (falsy (info_filename nfo) \<longrightarrow> filename fo = ''unnamed'')
         \<and> (falsy (info_encoding nfo) \<longrightarrow> encoding fo = ''7bit'')
         \<and> (falsy (info_mimeType nfo) \<longrightarrow> mimetype fo = ''application/octet-stream''))
   \<and> (\<exists>fp. parts (step_parts cfg (SvFile k nfo) it) = parts it @ [PartFile fp]
         \<and> (falsy (info_filename nfo) \<longrightarrow> p_filename fp = ''unnamed'')
         \<and> (falsy (info_encoding nfo) \<longrightarrow> p_encoding fp = ''7bit'')
         \<and> (falsy (info_mimeType nfo) \<longrightarrow> p_mimetype fp = ''application/octet-stream''))
   \<and> (\<exists>fp. parts (step_parts_p6 cfg (SvFile k nfo) it) = parts it @ [PartFile fp]
         \<and> (falsy (info_filename nfo) \<longrightarrow> p_filename fp = ''unnamed'')
         \<and> (falsy (info_encoding nfo) \<longrightarrow> p_encoding fp = ''7bit'')
         \<and> (falsy (info_mimeType nfo) \<longrightarrow> p_mimetype fp = ''application/octet-stream''))"
proof -
  have d: "or_default v x = x" if "falsy v" for v x
    using that by (auto simp: falsy_def or_default_def)
  have 1: "\<exists>fo. files (step cfg (EvWriteFinish (length (writes s)))
                  (step cfg (EvFileEnd (length (writes s)))
                     (step cfg (EvFile k nfo stamp) s))) = files s @ [fo]
         \<and> (falsy (info_filename nfo) \<longrightarrow> filename fo = ''unnamed'')
         \<and> (falsy (info_encoding nfo) \<longrightarrow> encoding fo = ''7bit'')
         \<and> (falsy (info_mimeType nfo) \<longrightarrow> mimetype fo = ''application/octet-stream'')"
    by (simp add: handler_defs Let_def d)
  have 2: "\<exists>fp. parts (push_file_part k nfo sz it) = parts it @ [PartFile fp]
         \<and> (falsy (info_filename nfo) \<longrightarrow> p_filename fp = ''unnamed'')
         \<and> (falsy (info_encoding nfo) \<longrightarrow> p_encoding fp = ''7bit'')
         \<and> (falsy (info_mimeType nfo) \<longrightarrow> p_mimetype fp = ''application/octet-stream'')" for sz
    by (simp add: push_file_part_def d)
  from 1 2 [of None] 2 [of "Some 0"] show ?thesis by simp
qed

theorem file_info_defaults_witness:
  "falsy (info_filename info_none) \<and> falsy (info_encoding info_none)
   \<and> falsy (info_mimeType info_none)
   \<and> files (step cfg0 (EvWriteFinish 0) (step cfg0 (EvFileEnd 0)
        (step cfg0 (EvFile ''file'' info_none ''1_a'') (parseMultipart req0))))
       = [\<lparr>fieldname = ''file'', filename = ''unnamed'', encoding = ''7bit'',
            mimetype = ''application/octet-stream'', tempPath = ''/tmp/upload_1_a''\<rparr>]
   \<and> parts (step_parts cfg0 (SvFile ''file'' info_none) new_iter)
       = [PartFile \<lparr>p_fieldname = ''file'', p_filename = ''unnamed'', p_encoding = ''7bit'',
                    p_mimetype = ''application/octet-stream'', p_stream = 0, p_size = None\<rparr>]
   \<and> parts (step_parts_p6 cfg0 (SvFile ''file'' info_none) new_iter)
       = [PartFile \<lparr>p_fieldname = ''file'', p_filename = ''unnamed'', p_encoding = ''7bit'',
                    p_mimetype = ''application/octet-stream'', p_stream = 0, p_size = Some 0\<rparr>]"
proof -
  have h: "falsy (info_filename info_none)" "falsy (info_encoding info_none)"
    "falsy (info_mimeType info_none)"
    by (simp_all add: falsy_def info_none_def)
  have w: "length (writes (parseMultipart req0)) = 0"
    by code_simp
  have a: "files (step cfg0 (EvWriteFinish 0) (step cfg0 (EvFileEnd 0)
        (step cfg0 (EvFile ''file'' info_none ''1_a'') (parseMultipart req0))))
       = [\<lparr>fieldname = ''file'', filename = ''unnamed'', encoding = ''7bit'',
            mimetype = ''application/octet-stream'', tempPath = ''/tmp/upload_1_a''\<rparr>]"
    by code_simp
  have b: "parts (step_parts cfg0 (SvFile ''file'' info_none) new_iter)
       = [PartFile \<lparr>p_fieldname = ''file'', p_filename = ''unnamed'', p_encoding = ''7bit'',
                    p_mimetype = ''application/octet-stream'', p_stream = 0, p_size = None\<rparr>]"
    by code_simp
  have c: "parts (step_parts_p6 cfg0 (SvFile ''file'' info_none) new_iter)
       = [PartFile \<lparr>p_fieldname = ''file'', p_filename = ''unnamed'', p_encoding = ''7bit'',
                    p_mimetype = ''application/octet-stream'', p_stream = 0, p_size = Some 0\<rparr>]"
    by code_simp
  show ?thesis
    using file_info_defaults [of cfg0 "parseMultipart req0" "''file''" info_none "''1_a''" new_iter]
      h w a b c
    by simp
qed

section \<open>The file size limit in the streaming iterator\<close>

lemma bytes_of_snoc [simp]: "bytes_of (cs @ [c]) = bytes_of cs + length c"
  by (simp add: bytes_of_def)

lemma run_parts_p6_snoc [simp]:
  "run_parts_p6 cfg (es @ [e]) it = step_parts_p6 cfg e (run_parts_p6 cfg es it)"
  by (simp add: run_parts_p6_def)

lemma list_all_update: "list_all P xs \<Longrightarrow> P y \<Longrightarrow> list_all P (xs[i := y])"
  by (cases "i < length xs") (auto simp: list_all_length nth_list_update)

lemma on_data_p6_ok:
  assumes "0 < limits_fileSize cfg" "flowing i it" "list_all (stream_ok cfg) (streams it)"
  shows "list_all (stream_ok cfg) (streams (on_data_p6 cfg i chunk it))"
proof -
  from assms(2) have i: "i < length (streams it)" and f: "src_state (streams it ! i) = SFlowing"
    by (simp_all add: flowing_def)
  from assms(3) i have ok: "stream_ok cfg (streams it ! i)"
    by (simp add: list_all_length)
  with f have le: "fileSize (streams it ! i) \<le> limits_fileSize cfg"
    by (auto simp: stream_ok_def split: if_splits)
  show ?thesis
    using ok le assms(1) assms(3)
    by (auto simp: on_data_p6_def upd_stream_def Let_def stream_ok_def size_error_def
          intro!: list_all_update)
qed

lemma step_parts_p6_ok:
  assumes "0 < limits_fileSize cfg" "list_all (stream_ok cfg) (streams it)"
  shows "list_all (stream_ok cfg) (streams (step_parts_p6 cfg e it))"
proof (cases e)
  case (SvFile k nfo)
  with assms show ?thesis
    by (simp add: push_file_part_def new_stream_def stream_ok_def bytes_of_def)
next
  case (SvData i chunk)
  with assms on_data_p6_ok [of cfg i it chunk] show ?thesis by simp
next
  case (SvEnd i)
  show ?thesis
  proof (cases "flowing i it")
    case True
    then have i: "i < length (streams it)" and f: "src_state (streams it ! i) = SFlowing"
      by (simp_all add: flowing_def)
    from assms(2) i have ok: "stream_ok cfg (streams it ! i)"
      by (simp add: list_all_length)
    with f have "stream_ok cfg ((streams it ! i)\<lparr>src_state := SEnded, pt_state := SEnded\<rparr>)"
      by (auto simp: stream_ok_def split: if_splits)
    with assms(2) True SvEnd show ?thesis
      by (simp add: upd_stream_def list_all_update)
  next
    case False
    with assms SvEnd show ?thesis by simp
  qed
next
  case (SvStreamError i)
  show ?thesis
  proof (cases "i < length (streams it)")
    case True
    with assms(2) have ok: "stream_ok cfg (streams it ! i)"
      by (simp add: list_all_length)
    then have "stream_ok cfg ((streams it ! i)\<lparr>pt_state := x\<rparr>)" for x
      by (simp add: stream_ok_def)
    with assms(2) True SvStreamError show ?thesis
      by (auto simp: on_stream_error_p6_def upd_stream_def list_all_update split: sstate.splits)
  next
    case False
    with assms SvStreamError show ?thesis by (simp add: on_stream_error_p6_def)
  qed
qed (use assms in \<open>simp_all add: fail_p6_def\<close>)

lemma run_parts_p6_ok:
  "0 < limits_fileSize cfg \<Longrightarrow> list_all (stream_ok cfg) (streams (run_parts_p6 cfg es new_iter))"
proof (induction es rule: rev_induct)
  case Nil
  then show ?case by (simp add: run_parts_p6_def new_iter_def)
next
  case (snoc e es)
  then show ?case by (simp add: step_parts_p6_ok)
qed

lemma on_data_p6_exceeds:
  assumes "0 < limits_fileSize cfg" "flowing i it"
    and "limits_fileSize cfg < fileSize (streams it ! i) + length chunk"
  shows "src_state (streams (step_parts_p6 cfg (SvData i chunk) it) ! i)
           = SDestroyed (size_error (fileSize (streams it ! i) + length chunk))
       \<and> pt_chunks (streams (step_parts_p6 cfg (SvData i chunk) it) ! i) = pt_chunks (streams it ! i)
       \<and> it_error (step_parts_p6 cfg (SvData i chunk) it)
           = Some (size_error (fileSize (streams it ! i) + length chunk))
       \<and> it_finished (step_parts_p6 cfg (SvData i chunk) it)
       \<and> pt_state (streams (step_parts_p6 cfg (SvStreamError i)
                              (step_parts_p6 cfg (SvData i chunk) it)) ! i)
           = SDestroyed (size_error (fileSize (streams it ! i) + length chunk))"
  using assms
  by (simp add: flowing_def on_data_p6_def on_stream_error_p6_def upd_stream_def Let_def
        size_error_def)

text \<open>The parts that the second file's iterator yields are queued parts, and each queued
  file part carries one of the streams that the properties below are about.\<close>

lemma step_parts_p6_length: "length (streams it) \<le> length (streams (step_parts_p6 cfg e it))"
  by (cases e)
    (auto simp: push_file_part_def upd_stream_def on_data_p6_def on_stream_error_p6_def
       fail_p6_def Let_def split: sstate.splits)

lemma has_stream_mono:
  "length (streams it) \<le> length (streams it') \<Longrightarrow> has_stream it p \<Longrightarrow> has_stream it' p"
  by (auto simp: has_stream_def split: part.splits)

lemma step_parts_p6_queue:
  assumes "list_all (has_stream it) (parts it)"
  shows "list_all (has_stream (step_parts_p6 cfg e it)) (parts (step_parts_p6 cfg e it))"
proof -
  have old: "list_all (has_stream (step_parts_p6 cfg e it)) (parts it)"
    using assms has_stream_mono [OF step_parts_p6_length [of it cfg e]]
    by (auto simp: list_all_iff)
  show ?thesis
    using old
    by (cases e)
      (auto simp: push_file_part_def upd_stream_def on_data_p6_def on_stream_error_p6_def
         fail_p6_def has_stream_def Let_def split: sstate.splits)
qed

lemma run_parts_p6_queue:
  "list_all (has_stream (run_parts_p6 cfg es new_iter)) (parts (run_parts_p6 cfg es new_iter))"
proof (induction es rule: rev_induct)
  case Nil
  show ?case by (simp add: run_parts_p6_def new_iter_def)
next
  case (snoc e es)
  then show ?case by (simp add: step_parts_p6_queue)
qed

lemma next_part_p6_yields_queued:
  "fst (next_part_p6 it) = Yield p \<Longrightarrow> p \<in> set (parts it)"
  by (auto simp: next_part_p6_def split: if_splits option.splits list.splits)


text \<open>The iterator of \<^verbatim>\<open>index.js\<close> never queues a \<^verbatim>\<open>FileSizeLimit\<close> error: it creates
  none.\<close>

lemma run_parts_snoc [simp]:
  "run_parts cfg (es @ [e]) it = step_parts cfg e (run_parts cfg es it)"
  by (simp add: run_parts_def)

lemma step_parts_no_size_part:
  "list_all no_size_part (parts it) \<Longrightarrow> list_all no_size_part (parts (step_parts cfg e it))"
  by (cases e) (auto simp: push_file_part_def upd_stream_def no_size_part_def)

lemma parts_never_queues_size_error:
  "list_all no_size_part (parts (run_parts cfg es new_iter))"
proof (induction es rule: rev_induct)
  case Nil
  show ?case by (simp add: run_parts_def new_iter_def)
next
  case (snoc e es)
  then show ?case by (simp add: step_parts_no_size_part)
qed

text \<open>In the second file the size error needs a stream that emits more than the limit:
  in every run in which each file stream has emitted no more than the limit, as under a
  tokenizer that truncates at the limit, the iterator has no size error, no stream is
  destroyed, and every chunk has been passed on.\<close>

lemma list_ex_update_mono:
  "list_ex P xs \<Longrightarrow> (P (xs ! i) \<Longrightarrow> P y) \<Longrightarrow> list_ex P (xs[i := y])"
proof (induction xs arbitrary: i)
  case Nil
  then show ?case by simp
next
  case (Cons x xs)
  then show ?case by (cases i) auto
qed

lemma step_over_limit: "over_limit cfg it \<Longrightarrow> over_limit cfg (step_parts_p6 cfg e it)"
  by (cases e)
    (auto simp: over_limit_def push_file_part_def upd_stream_def on_data_p6_def
       on_stream_error_p6_def fail_p6_def Let_def
       intro!: list_ex_update_mono split: sstate.splits)

lemma step_calm:
  assumes "calm cfg it"
  shows "calm cfg (step_parts_p6 cfg e it)"
proof (cases "over_limit cfg (step_parts_p6 cfg e it)")
  case True
  then show ?thesis by (simp add: calm_def)
next
  case False
  with step_over_limit have n: "\<not> over_limit cfg it" by blast
  with assms have e: "\<not> is_size_error (it_error it)"
    and a: "list_all (\<lambda>st. \<not> is_destroyed (src_state st) \<and> \<not> is_destroyed (pt_state st)
                              \<and> pt_chunks st = src_chunks st
                              \<and> fileSize st = bytes_of (src_chunks st)) (streams it)"
    by (simp_all add: calm_def)
  show ?thesis
  proof (cases e)
    case (SvFile k nfo)
    with False e a show ?thesis
      by (simp add: calm_def push_file_part_def new_stream_def is_destroyed_def bytes_of_def)
  next
    case (SvData i chunk)
    show ?thesis
    proof (cases "flowing i it")
      case f: True
      then have i: "i < length (streams it)" by (simp add: flowing_def)
      with a have s: "pt_chunks (streams it ! i) = src_chunks (streams it ! i)"
        "fileSize (streams it ! i) = bytes_of (src_chunks (streams it ! i))"
        "\<not> is_destroyed (src_state (streams it ! i))" "\<not> is_destroyed (pt_state (streams it ! i))"
        by (simp_all add: list_all_length)
      from False SvData f i have le:
        "bytes_of (src_chunks (streams it ! i)) + length chunk \<le> limits_fileSize cfg"
        by (auto simp: over_limit_def on_data_p6_def upd_stream_def Let_def list_ex_iff
              set_conv_nth nth_list_update not_less split: if_splits
              dest!: spec [of _ i])
      with False SvData f i e a s show ?thesis
        by (auto simp: calm_def on_data_p6_def upd_stream_def Let_def intro!: list_all_update)
    next
      case False
      with assms SvData show ?thesis by simp
    qed
  next
    case (SvEnd i)
    show ?thesis
    proof (cases "flowing i it")
      case f: True
      then have i: "i < length (streams it)" by (simp add: flowing_def)
      with a have s: "pt_chunks (streams it ! i) = src_chunks (streams it ! i)"
        "fileSize (streams it ! i) = bytes_of (src_chunks (streams it ! i))"
        by (simp_all add: list_all_length)
      with False SvEnd f e a show ?thesis
        by (auto simp: calm_def upd_stream_def is_destroyed_def intro!: list_all_update)
    next
      case False
      with assms SvEnd show ?thesis by simp
    qed
  next
    case (SvStreamError i)
    show ?thesis
    proof (cases "i < length (streams it)")
      case True
      with a have "\<not> is_destroyed (src_state (streams it ! i))"
        by (simp add: list_all_length)
      then have "on_stream_error_p6 i it = it"
        using True by (auto simp: on_stream_error_p6_def is_destroyed_def split: sstate.splits)
      with assms SvStreamError show ?thesis by simp
    next
      case False
      with assms SvStreamError show ?thesis by (simp add: on_stream_error_p6_def)
    qed
  qed (use False e a in \<open>simp_all add: calm_def fail_p6_def is_size_error_def over_limit_def\<close>)
qed

lemma run_calm: "calm cfg (run_parts_p6 cfg es new_iter)"
proof (induction es rule: rev_induct)
  case Nil
  show ?case
    by (simp add: run_parts_p6_def new_iter_def calm_def over_limit_def is_size_error_def)
next
  case (snoc e es)
  then show ?case by (simp add: step_calm)
qed

lemma counter_p6_needs_excess:
  assumes "\<forall>st \<in> set (streams (run_parts_p6 cfg es new_iter)).
             bytes_of (src_chunks st) \<le> limits_fileSize cfg"
  shows "\<not> is_size_error (it_error (run_parts_p6 cfg es new_iter))
       \<and> (\<forall>st \<in> set (streams (run_parts_p6 cfg es new_iter)).
             \<not> is_destroyed (src_state st) \<and> \<not> is_destroyed (pt_state st)
             \<and> pt_chunks st = src_chunks st)"
proof -
  from assms have "\<not> over_limit cfg (run_parts_p6 cfg es new_iter)"
    by (auto simp: over_limit_def list_ex_iff)
  with run_calm [of cfg es] show ?thesis
    by (auto simp: calm_def list_all_iff)
qed

text \<open>What the listener of the second file would do on a file stream that the tokenizer
  did not truncate: the counter is the number of bytes emitted; the part's stream never
  receives more than the limit; up to and including the limit every chunk is passed on;
  the chunk that takes the count past the limit is not passed on, the tokenizer's stream
  is destroyed with \<^verbatim>\<open>FileSizeLimit\<close>, the iterator's error is set, and the error event of
  the destroyed stream destroys the part's stream with the same error.\<close>

lemma counter_p6_guards_stream:
  assumes "0 < limits_fileSize cfg"
    and "i < length (streams (run_parts_p6 cfg es new_iter))"
  shows "fileSize (streams (run_parts_p6 cfg es new_iter) ! i)
           = bytes_of (src_chunks (streams (run_parts_p6 cfg es new_iter) ! i))
       \<and> bytes_of (pt_chunks (streams (run_parts_p6 cfg es new_iter) ! i)) \<le> limits_fileSize cfg
       \<and> (fileSize (streams (run_parts_p6 cfg es new_iter) ! i) \<le> limits_fileSize cfg \<longrightarrow>
            pt_chunks (streams (run_parts_p6 cfg es new_iter) ! i)
              = src_chunks (streams (run_parts_p6 cfg es new_iter) ! i))
       \<and> (limits_fileSize cfg < fileSize (streams (run_parts_p6 cfg es new_iter) ! i) \<longrightarrow>
            src_state (streams (run_parts_p6 cfg es new_iter) ! i)
              = SDestroyed (size_error (fileSize (streams (run_parts_p6 cfg es new_iter) ! i))))
       \<and> (flowing i (run_parts_p6 cfg es new_iter)
            \<and> limits_fileSize cfg
                < fileSize (streams (run_parts_p6 cfg es new_iter) ! i) + length chunk \<longrightarrow>
          src_state (streams (run_parts_p6 cfg (es @ [SvData i chunk]) new_iter) ! i)
            = SDestroyed (size_error (fileSize (streams (run_parts_p6 cfg es new_iter) ! i)
                                       + length chunk))
          \<and> pt_chunks (streams (run_parts_p6 cfg (es @ [SvData i chunk]) new_iter) ! i)
              = pt_chunks (streams (run_parts_p6 cfg es new_iter) ! i)
          \<and> it_error (run_parts_p6 cfg (es @ [SvData i chunk]) new_iter)
              = Some (size_error (fileSize (streams (run_parts_p6 cfg es new_iter) ! i)
                                   + length chunk))
          \<and> pt_state (streams (run_parts_p6 cfg (es @ [SvData i chunk, SvStreamError i]) new_iter) ! i)
              = SDestroyed (size_error (fileSize (streams (run_parts_p6 cfg es new_iter) ! i)
                                         + length chunk)))"
proof -
  let ?it = "run_parts_p6 cfg es new_iter"
  from run_parts_p6_ok [OF assms(1)] assms(2) have ok: "stream_ok cfg (streams ?it ! i)"
    by (simp add: list_all_length)
  have c: "run_parts_p6 cfg (es @ [SvData i chunk, SvStreamError i]) new_iter
             = step_parts_p6 cfg (SvStreamError i) (step_parts_p6 cfg (SvData i chunk) ?it)"
    by (simp add: run_parts_p6_def)
  show ?thesis
    using ok on_data_p6_exceeds [OF assms(1), of i ?it chunk]
    by (auto simp: c stream_ok_def split: if_splits)
qed

end
